theory Spec2Isabelle
  imports Complex_Main
begin

section \<open>Data model of the MIDI latent mixer\<close>

text \<open>
  The development follows \<^verbatim>\<open>midi_latent_mixer_node.py\<close>. Python integers are
  \<^typ>\<open>int\<close>. Python floats are idealised as \<^typ>\<open>real\<close>, every arithmetic
  operation being the exact one; the conversion of a frame to a tick position (lines
  231-232) is also modelled with the rounding of each operation, as
  \<open>midi_time_double\<close>. Exceptions are values of \<open>error + 'a\<close>.
\<close>

datatype error = ZeroDivisionError | IndexError | TypeError | AttributeError | ValueError

text \<open>The value of the \<^verbatim>\<open>'type'\<close> entry of a stored track event: the parser keeps
  only messages whose type is one of these two.\<close>

datatype msg_type = note_on | note_off

text \<open>One entry of a track's event list, the dictionary
  \<^verbatim>\<open>{'time': .., 'type': .., 'note': .., 'velocity': ..}\<close>.\<close>

record event =
  ev_time :: int
  ev_type :: msg_type
  ev_note :: int
  ev_velocity :: int

section \<open>Strength of one track at one frame\<close>

text \<open>Lines 231-232: \<^verbatim>\<open>seconds = frame / fps\<close>,
  \<^verbatim>\<open>midi_time = seconds * 1000000 / tempo * ticks_per_beat\<close>. Both divisions raise
  on a zero divisor.\<close>

definition midi_time_of :: "int \<Rightarrow> int \<Rightarrow> int \<Rightarrow> int \<Rightarrow> error + real" where
  "midi_time_of frame fps tempo ticks_per_beat =
     (if fps = 0 then Inl ZeroDivisionError
      else let seconds = real_of_int frame / real_of_int fps in
        if tempo = 0 then Inl ZeroDivisionError
        else Inr (seconds * 1000000 / real_of_int tempo * real_of_int ticks_per_beat))"

text \<open>Lines 240-246: the inner loop over \<^verbatim>\<open>range(i+1, len(track_data))\<close>, run on the
  events after position \<open>i\<close>; it stops at the first event on the same note that is a
  \<^verbatim>\<open>note_off\<close> or has velocity 0.\<close>

definition ends_note :: "int \<Rightarrow> event \<Rightarrow> bool" where
  "ends_note n e = (ev_note e = n \<and> (ev_type e = note_off \<or> ev_velocity e = 0))"

fun note_off_time :: "event list \<Rightarrow> int \<Rightarrow> int option" where
  "note_off_time [] n = None"
| "note_off_time (e # es) n =
     (if ends_note n e then Some (ev_time e) else note_off_time es n)"

text \<open>Lines 237-249: the body of the outer loop, for the event at position \<open>i\<close>:
  whether that event is appended to \<^verbatim>\<open>active_notes\<close>.\<close>

definition is_active :: "event list \<Rightarrow> real \<Rightarrow> nat \<Rightarrow> bool" where
  "is_active track_data midi_time i =
     (let event = track_data ! i in
      real_of_int (ev_time event) \<le> midi_time \<and>
      ev_type event = note_on \<and> ev_velocity event > 0 \<and>
      (case note_off_time (drop (i + 1) track_data) (ev_note event) of
         None \<Rightarrow> True
       | Some t \<Rightarrow> midi_time < real_of_int t))"

definition active_indices :: "event list \<Rightarrow> real \<Rightarrow> nat list" where
  "active_indices track_data midi_time =
     filter (is_active track_data midi_time) [0 ..< length track_data]"

definition active_notes :: "event list \<Rightarrow> real \<Rightarrow> event list" where
  "active_notes track_data midi_time =
     map (\<lambda>i. track_data ! i) (active_indices track_data midi_time)"

text \<open>\<^verbatim>\<open>max(active_notes, key=lambda x: x['time'])\<close>: the first element of largest
  time. The first argument is the best element so far. On an empty list \<^verbatim>\<open>max\<close>
  raises \<^verbatim>\<open>ValueError\<close>, which is the \<open>None\<close> of \<open>most_recent_of\<close>.\<close>

fun max_by_time :: "event \<Rightarrow> event list \<Rightarrow> event" where
  "max_by_time m [] = m"
| "max_by_time m (x # xs) = max_by_time (if ev_time m < ev_time x then x else m) xs"

definition most_recent_of :: "event list \<Rightarrow> event option" where
  "most_recent_of ns = (case ns of [] \<Rightarrow> None | m # rest \<Rightarrow> Some (max_by_time m rest))"

text \<open>\<^verbatim>\<open>np.mean\<close> of a non-empty list.\<close>

definition mean :: "real list \<Rightarrow> real" where
  "mean xs = sum_list xs / real (length xs)"

text \<open>Lines 269-272: the number of events of the whole track that are a
  \<^verbatim>\<open>note_on\<close> of positive velocity at or before \<open>midi_time\<close>.\<close>

definition note_on_count :: "event list \<Rightarrow> real \<Rightarrow> nat" where
  "note_on_count track_data midi_time =
     length (filter (\<lambda>e. real_of_int (ev_time e) \<le> midi_time \<and>
                          ev_type e = note_on \<and> ev_velocity e > 0) track_data)"

text \<open>Lines 258-263, the Pulse branch, given the most recent active note.\<close>

definition pulse_strength :: "event \<Rightarrow> real \<Rightarrow> int \<Rightarrow> real \<Rightarrow> error + real" where
  "pulse_strength most_recent midi_time ticks_per_beat decay_rate =
     (if ticks_per_beat = 0 then Inl ZeroDivisionError
      else let time_since = (midi_time - real_of_int (ev_time most_recent))
                              / real_of_int ticks_per_beat;
               decay = max 0 (1 - time_since * decay_rate)
           in Inr (real_of_int (ev_velocity most_recent) / 127 * decay))"

text \<open>Lines 234-275: everything after the tick position is known. The check
  \<^verbatim>\<open>if not active_notes: return 0.0\<close> comes before the dispatch on the mode.\<close>

definition strength_at_tick ::
  "event list \<Rightarrow> real \<Rightarrow> string \<Rightarrow> int \<Rightarrow> real \<Rightarrow> error + real" where
  "strength_at_tick track_data midi_time trigger_mode ticks_per_beat decay_rate =
     (let active = active_notes track_data midi_time in
      if active = [] then Inr 0
      else if trigger_mode = ''Velocity'' then
        Inr (mean (map (\<lambda>n. real_of_int (ev_velocity n) / 127) active))
      else if trigger_mode = ''Pulse'' then
        (case most_recent_of active of
           None \<Rightarrow> Inl ValueError
         | Some most_recent \<Rightarrow>
             pulse_strength most_recent midi_time ticks_per_beat decay_rate)
      else if trigger_mode = ''Hold'' then
        Inr (if active \<noteq> [] then 1 else 0)
      else if trigger_mode = ''Toggle'' then
        Inr (if note_on_count track_data midi_time mod 2 = 1 then 1 else 0)
      else Inr 0)"

text \<open>Lines 224-275. An empty track returns before any division is made.\<close>

definition get_track_strength_at_frame ::
  "event list \<Rightarrow> int \<Rightarrow> int \<Rightarrow> string \<Rightarrow> int \<Rightarrow> int \<Rightarrow> real \<Rightarrow> error + real" where
  "get_track_strength_at_frame track_data frame fps trigger_mode
       ticks_per_beat tempo decay_rate =
     (if track_data = [] then Inr 0
      else case midi_time_of frame fps tempo ticks_per_beat of
             Inl e \<Rightarrow> Inl e
           | Inr midi_time \<Rightarrow>
               strength_at_tick track_data midi_time trigger_mode
                 ticks_per_beat decay_rate)"

section \<open>The tick position in double precision\<close>

text \<open>
  Lines 231-232 run in Python floats, which are IEEE 754 binary64 numbers: every
  operation returns the double nearest to the exact result, a tie going to the even
  significand. This section models the two lines with that rounding. A finite double
  is the real number it holds, and \<open>rnd x\<close> is the nearest number with a significand of
  53 bits. The exponent is not bounded in \<open>rnd\<close>: a result below \<open>2^(-1022)\<close> (a
  subnormal double) or from \<open>2^1024\<close> on (where \<^verbatim>\<open>int / int\<close> and the conversion of
  an \<^verbatim>\<open>int\<close> raise \<^verbatim>\<open>OverflowError\<close> and a float product is \<^verbatim>\<open>inf\<close>) is outside
  the model. Lemma \<open>midi_time_double_normal\<close> shows that no such result occurs for
  inputs below \<open>2^53\<close>.
\<close>

text \<open>The number of binary digits of a natural number.\<close>

fun bit_length :: "nat \<Rightarrow> nat" where
  "bit_length 0 = 0"
| "bit_length (Suc n) = Suc (bit_length (Suc n div 2))"

text \<open>The binary exponent of a positive real: \<open>expo x = e\<close> where
  \<open>2^e \<le> x < 2^(e+1)\<close> (lemma \<open>expo_bounds\<close>).\<close>

definition expo :: "real \<Rightarrow> int" where
  "expo x = (if 1 \<le> x then int (bit_length (nat \<lfloor>x\<rfloor>)) - 1
             else - int (bit_length (nat (\<lceil>1 / x\<rceil> - 1))))"

text \<open>The nearest integer, a tie going to the even one.\<close>

definition round_half_even :: "real \<Rightarrow> int" where
  "round_half_even x =
     (let n = \<lfloor>x\<rfloor>; r = x - of_int n in
      if r < 1 / 2 then n
      else if 1 / 2 < r then n + 1
      else if even n then n else n + 1)"

text \<open>The nearest multiple of \<open>2^(e-52)\<close>, where \<open>e\<close> is the exponent of \<open>x\<close>: the
  nearest number with 53 significant bits.\<close>

definition rnd :: "real \<Rightarrow> real" where
  "rnd x = (if x = 0 then 0
            else let q = 2 powi (expo \<bar>x\<bar> - 52)
                 in of_int (round_half_even (x / q)) * q)"

text \<open>The operations of lines 231-232. \<^verbatim>\<open>frame / fps\<close> divides two \<^verbatim>\<open>int\<close>s and
  returns the double nearest to the quotient. In \<^verbatim>\<open>seconds * 1000000\<close>,
  \<^verbatim>\<open>.. / tempo\<close> and \<^verbatim>\<open>.. * ticks_per_beat\<close> the left operand is a float and the
  right one an \<^verbatim>\<open>int\<close>, which is converted to the nearest double first; the exact
  product or quotient is then rounded. Both divisions raise on a zero divisor.\<close>

definition float_of_int :: "int \<Rightarrow> real" where
  "float_of_int n = rnd (real_of_int n)"

definition int_truediv :: "int \<Rightarrow> int \<Rightarrow> error + real" where
  "int_truediv a b =
     (if b = 0 then Inl ZeroDivisionError else Inr (rnd (real_of_int a / real_of_int b)))"

definition float_mul :: "real \<Rightarrow> real \<Rightarrow> real" where
  "float_mul x y = rnd (x * y)"

definition float_truediv :: "real \<Rightarrow> real \<Rightarrow> error + real" where
  "float_truediv x y = (if y = 0 then Inl ZeroDivisionError else Inr (rnd (x / y)))"

text \<open>Lines 231-232: \<^verbatim>\<open>seconds = frame / fps\<close>,
  \<^verbatim>\<open>midi_time = seconds * 1000000 / tempo * ticks_per_beat\<close>, evaluated from left to
  right.\<close>

definition midi_time_double :: "int \<Rightarrow> int \<Rightarrow> int \<Rightarrow> int \<Rightarrow> error + real" where
  "midi_time_double frame fps tempo ticks_per_beat =
     (case int_truediv frame fps of
        Inl e \<Rightarrow> Inl e
      | Inr seconds \<Rightarrow>
          (case float_truediv (float_mul seconds (float_of_int 1000000)) (float_of_int tempo) of
             Inl e \<Rightarrow> Inl e
           | Inr beats \<Rightarrow> Inr (float_mul beats (float_of_int ticks_per_beat))))"

section \<open>Host objects and the store\<close>

text \<open>
  Conditioning is a Python list of two-element lists \<^verbatim>\<open>[cond, dict]\<close>. Lists and
  dictionaries are objects of a store and are referred to by address, so that sharing
  and in-place updates are visible. The store is a list of objects, the address of an
  object is its position, and a new object is added at the end.
\<close>

type_synonym addr = nat

text \<open>A tensor: its shape and the identity of its storage (\<^verbatim>\<open>movedim\<close> and
  \<^verbatim>\<open>unsqueeze\<close> return views of the same storage).\<close>

datatype tensor = Tensor (t_shape: "nat list") (t_storage: nat)

datatype pyval = NoneV | Num real | TensorV tensor | HostObj nat | Ref addr

datatype pyobj = PyList "pyval list" | PyDict "string \<Rightarrow> pyval option"

type_synonym heap = "pyobj list"

definition alloc :: "heap \<Rightarrow> pyobj \<Rightarrow> heap \<times> addr" where
  "alloc h obj = (h @ [obj], length h)"

definition lookup :: "heap \<Rightarrow> pyval \<Rightarrow> pyobj option" where
  "lookup h v = (case v of Ref a \<Rightarrow> if a < length h then Some (h ! a) else None
                 | _ \<Rightarrow> None)"

text \<open>\<^verbatim>\<open>d[k] = v\<close> on the dictionary at address \<open>a\<close>, in place.\<close>

definition dict_setitem :: "heap \<Rightarrow> addr \<Rightarrow> string \<Rightarrow> pyval \<Rightarrow> heap" where
  "dict_setitem h a k v =
     (if a < length h then
        (case h ! a of PyDict d \<Rightarrow> h[a := PyDict (d(k \<mapsto> v))] | PyList xs \<Rightarrow> h)
      else h)"

text \<open>\<^verbatim>\<open>xs.append(v)\<close> on the list at address \<open>a\<close>, in place.\<close>

definition list_append :: "heap \<Rightarrow> addr \<Rightarrow> pyval \<Rightarrow> heap" where
  "list_append h a v =
     (if a < length h then
        (case h ! a of PyList xs \<Rightarrow> h[a := PyList (xs @ [v])] | PyDict d \<Rightarrow> h)
      else h)"

section \<open>Applying a ControlNet to conditioning\<close>

text \<open>\<^verbatim>\<open>image.movedim(-1, 1)\<close>: the last dimension moves to position 1; a tensor of
  rank below 2 has no position 1.\<close>

definition movedim_last_1 :: "tensor \<Rightarrow> error + tensor" where
  "movedim_last_1 t =
     (case t_shape t of
        [] \<Rightarrow> Inl IndexError
      | s0 # rest \<Rightarrow>
          if rest = [] then Inl IndexError
          else Inr (Tensor (s0 # last rest # butlast rest) (t_storage t)))"

definition unsqueeze_0 :: "tensor \<Rightarrow> tensor" where
  "unsqueeze_0 t = Tensor (1 # t_shape t) (t_storage t)"

text \<open>Lines 300-303.\<close>

definition control_hint_of :: "tensor \<Rightarrow> error + tensor" where
  "control_hint_of img =
     (if length (t_shape img) = 4 then movedim_last_1 img
      else movedim_last_1 (unsqueeze_0 img))"

text \<open>Lines 312-319 (and 324-331): the body of the loop for one entry \<open>t\<close>. \<open>cnets\<close> is
  the address of the list \<^verbatim>\<open>cnets\<close>, \<open>c_out\<close> the address of the list being built.
  \<^verbatim>\<open>n[1]['control'] = ...\<close> writes into the dictionary that \<^verbatim>\<open>n[1]\<close> refers to, and
  \<^verbatim>\<open>append\<close> writes into the list being built. An entry of another shape raises;
  the class of the exception is only approximated.\<close>

definition apply_entry :: "heap \<Rightarrow> addr \<Rightarrow> addr \<Rightarrow> pyval \<Rightarrow> heap \<times> error option" where
  "apply_entry h cnets c_out t =
     (case lookup h t of
        Some (PyList items) \<Rightarrow>
          (if length items < 2 then (h, Some IndexError)
           else case lookup h (items ! 1) of
             Some (PyDict d) \<Rightarrow>
               (let (h1, dcopy) = alloc h (PyDict d);
                    (h2, n) = alloc h1 (PyList [items ! 0, Ref dcopy])
                in case d ''control'' of
                     Some old \<Rightarrow>
                       (case (lookup h2 old, lookup h2 (Ref cnets)) of
                          (Some (PyList olds), Some (PyList cs)) \<Rightarrow>
                            (let (h3, joined) = alloc h2 (PyList (olds @ cs));
                                 h4 = dict_setitem h3 dcopy ''control'' (Ref joined)
                             in (list_append h4 c_out (Ref n), None))
                        | _ \<Rightarrow> (h2, Some TypeError))
                   | None \<Rightarrow>
                       (let h3 = dict_setitem h2 dcopy ''control'' (Ref cnets)
                        in (list_append h3 c_out (Ref n), None)))
           | _ \<Rightarrow> (h, Some AttributeError))
      | _ \<Rightarrow> (h, Some TypeError))"

fun apply_entries :: "heap \<Rightarrow> addr \<Rightarrow> addr \<Rightarrow> pyval list \<Rightarrow> heap \<times> error option" where
  "apply_entries h cnets c_out [] = (h, None)"
| "apply_entries h cnets c_out (t # ts) =
     (case apply_entry h cnets c_out t of
        (h', Some e) \<Rightarrow> (h', Some e)
      | (h', None) \<Rightarrow> apply_entries h' cnets c_out ts)"

text \<open>Lines 310-319 for \<^verbatim>\<open>positive\<close>, lines 322-331 for \<^verbatim>\<open>negative\<close>: a new empty
  list, then the loop over the entries of the conditioning.\<close>

definition apply_side :: "heap \<Rightarrow> addr \<Rightarrow> pyval \<Rightarrow> heap \<times> (error + pyval)" where
  "apply_side h cnets conditioning =
     (let (h1, c_out) = alloc h (PyList [])
      in case lookup h1 conditioning of
           Some (PyList ts) \<Rightarrow>
             (case apply_entries h1 cnets c_out ts of
                (h2, Some e) \<Rightarrow> (h2, Inl e)
              | (h2, None) \<Rightarrow> (h2, Inr (Ref c_out)))
         | _ \<Rightarrow> (h1, Inl TypeError))"

text \<open>Lines 293-336; \<open>img\<close> is the parameter \<^verbatim>\<open>image\<close>.\<close>

definition apply_controlnet_to_conditioning ::
  "heap \<Rightarrow> pyval \<Rightarrow> pyval \<Rightarrow> pyval \<Rightarrow> pyval \<Rightarrow> real \<Rightarrow> real
     \<Rightarrow> heap \<times> (error + pyval \<times> pyval)" where
  "apply_controlnet_to_conditioning h positive negative control_net img strength
       track_strength =
     (if control_net \<noteq> NoneV \<and> img \<noteq> NoneV \<and> strength > 0 \<and> track_strength > 0 then
        (let final_strength = strength * track_strength
         in case img of
              TensorV t \<Rightarrow>
                (case control_hint_of t of
                   Inl e \<Rightarrow> (h, Inl e)
                 | Inr control_hint \<Rightarrow>
                     (let (h1, inner) = alloc h (PyList [control_net, TensorV control_hint,
                                                    Num final_strength, Num 0, Num 1]);
                          (h2, cnets) = alloc h1 (PyList [Ref inner])
                      in case apply_side h2 cnets positive of
                           (h3, Inl e) \<Rightarrow> (h3, Inl e)
                         | (h3, Inr c_pos) \<Rightarrow>
                             (case apply_side h3 cnets negative of
                                (h4, Inl e) \<Rightarrow> (h4, Inl e)
                              | (h4, Inr c_neg) \<Rightarrow> (h4, Inr (c_pos, c_neg)))))
            | _ \<Rightarrow> (h, Inl AttributeError))
      else (h, Inr (positive, negative)))"

text \<open>Lines 277-291: the model is returned as it came, on every path.\<close>

definition apply_ipadapter_to_model ::
  "pyval \<Rightarrow> pyval \<Rightarrow> pyval \<Rightarrow> real \<Rightarrow> real \<Rightarrow> pyval" where
  "apply_ipadapter_to_model model ipadapter img weight track_strength =
     (if ipadapter \<noteq> NoneV \<and> img \<noteq> NoneV \<and> weight > 0 \<and> track_strength > 0
      then model else model)"

section \<open>Parsing a MIDI file\<close>

text \<open>A message of a \<^verbatim>\<open>mido\<close> track: its delta time first, then the attributes the
  parser reads. Every message type other than \<^verbatim>\<open>note_on\<close>, \<^verbatim>\<open>note_off\<close> and
  \<^verbatim>\<open>set_tempo\<close> is \<open>OtherMsg\<close>.\<close>

datatype mido_msg =
    NoteOnMsg int int int
  | NoteOffMsg int int int
  | SetTempoMsg int int
  | OtherMsg int

fun msg_time :: "mido_msg \<Rightarrow> int" where
  "msg_time (NoteOnMsg dt n v) = dt"
| "msg_time (NoteOffMsg dt n v) = dt"
| "msg_time (SetTempoMsg dt t) = dt"
| "msg_time (OtherMsg dt) = dt"

text \<open>What \<^verbatim>\<open>mido.MidiFile(path)\<close> gives: the tracks and \<^verbatim>\<open>ticks_per_beat\<close>.\<close>

record midi_file =
  mf_tracks :: "mido_msg list list"
  mf_ticks_per_beat :: int

text \<open>The dictionary returned by \<^verbatim>\<open>parse_midi_file\<close>.\<close>

record parsed_midi =
  pm_tracks :: "event list list"
  pm_tempo :: int
  pm_ticks_per_beat :: int
  pm_bpm :: real

text \<open>The surroundings of the node: whether \<^verbatim>\<open>mido\<close> was imported, which paths exist,
  and what \<^verbatim>\<open>mido.MidiFile\<close> returns for a path (\<open>None\<close> when it raises).\<close>

record env =
  midi_available :: bool
  path_exists :: "string \<Rightarrow> bool"
  MidiFile :: "string \<Rightarrow> midi_file option"

text \<open>Lines 180-184: the tempo of the first \<^verbatim>\<open>set_tempo\<close> message, 500000 without one.\<close>

fun first_tempo :: "mido_msg list \<Rightarrow> int" where
  "first_tempo [] = 500000"
| "first_tempo (SetTempoMsg dt t # ms) = t"
| "first_tempo (m # ms) = first_tempo ms"

text \<open>Lines 197-207: the events of one track, with the running absolute time.\<close>

fun track_events :: "int \<Rightarrow> mido_msg list \<Rightarrow> event list" where
  "track_events current_time [] = []"
| "track_events current_time (NoteOnMsg dt n v # ms) =
     \<lparr>ev_time = current_time + dt, ev_type = note_on, ev_note = n, ev_velocity = v\<rparr>
       # track_events (current_time + dt) ms"
| "track_events current_time (NoteOffMsg dt n v # ms) =
     \<lparr>ev_time = current_time + dt, ev_type = note_off, ev_note = n, ev_velocity = v\<rparr>
       # track_events (current_time + dt) ms"
| "track_events current_time (m # ms) = track_events (current_time + msg_time m) ms"

text \<open>Lines 165-222. Every exception inside the \<^verbatim>\<open>try\<close> block gives \<^verbatim>\<open>None\<close>:
  \<^verbatim>\<open>mido.MidiFile\<close> raising, \<^verbatim>\<open>mid.tracks[0]\<close> on a file without tracks, and the
  division \<^verbatim>\<open>60000000 / tempo\<close> by a zero tempo.\<close>

definition parse_midi_file :: "env \<Rightarrow> string \<Rightarrow> parsed_midi option" where
  "parse_midi_file e midi_path =
     (if \<not> midi_available e then None
      else if midi_path = [] \<or> \<not> path_exists e midi_path then None
      else case MidiFile e midi_path of
             None \<Rightarrow> None
           | Some mid \<Rightarrow>
               (case mf_tracks mid of
                  [] \<Rightarrow> None
                | track0 # others \<Rightarrow>
                    (let tempo = first_tempo track0
                     in if tempo = 0 then None
                        else Some \<lparr>pm_tracks = map (track_events 0) (take 4 (mf_tracks mid)),
                                   pm_tempo = tempo,
                                   pm_ticks_per_beat = mf_ticks_per_beat mid,
                                   pm_bpm = 60000000 / real_of_int tempo\<rparr>)))"

section \<open>The mixer object and \<^verbatim>\<open>mix_with_midi\<close>\<close>

text \<open>The fields of the node object that \<^verbatim>\<open>mix_with_midi\<close> reads and writes.\<close>

record session =
  midi_data :: "parsed_midi option"
  current_frame :: int
  track_states :: "real list"
  cached_midi_path :: "string option"

text \<open>\<^verbatim>\<open>__init__\<close>, lines 60-66.\<close>

definition init_session :: session where
  "init_session = \<lparr>midi_data = None, current_frame = 0, track_states = [0, 0, 0, 0],
                    cached_midi_path = None\<rparr>"

text \<open>The optional inputs. A key that is absent is \<open>None\<close>; the keys of channel \<open>i + 1\<close>
  (\<^verbatim>\<open>ipadapter_1\<close>, ...) are at index \<open>i\<close>.\<close>

record kwargs =
  kw_midi_path :: "string option"
  kw_ipadapter :: "nat \<Rightarrow> pyval option"
  kw_image :: "nat \<Rightarrow> pyval option"
  kw_ipa_weight :: "nat \<Rightarrow> real option"
  kw_control_net :: "nat \<Rightarrow> pyval option"
  kw_cn_image :: "nat \<Rightarrow> pyval option"
  kw_cn_strength :: "nat \<Rightarrow> real option"

text \<open>The arguments of one call (\<^verbatim>\<open>latent_image\<close> is never used).\<close>

record call =
  a_model :: pyval
  a_positive :: pyval
  a_negative :: pyval
  a_frame_number :: int
  a_fps :: int
  a_trigger_mode :: string
  a_mix_strength :: real
  a_decay_rate :: real
  a_kwargs :: kwargs

text \<open>What the loop over the four channels carries: the object's fields, the store, and
  \<^verbatim>\<open>processed_model\<close>, \<^verbatim>\<open>processed_positive\<close>, \<^verbatim>\<open>processed_negative\<close>.\<close>

record loop_state =
  ls_session :: session
  ls_heap :: heap
  ls_model :: pyval
  ls_positive :: pyval
  ls_negative :: pyval

text \<open>Lines 389-417: the body of the loop for channel \<open>i\<close>. An exception leaves the
  state as it is at that point.\<close>

definition process_track ::
  "call \<Rightarrow> event list list \<Rightarrow> int \<Rightarrow> int \<Rightarrow> nat \<Rightarrow> loop_state \<Rightarrow> loop_state \<times> error option"
  where
  "process_track args tracks tempo ticks_per_beat i st =
     (if i < length tracks then
        (case get_track_strength_at_frame (tracks ! i) (a_frame_number args) (a_fps args)
                (a_trigger_mode args) ticks_per_beat tempo (a_decay_rate args) of
           Inl e \<Rightarrow> (st, Some e)
         | Inr strength \<Rightarrow>
             (if \<not> i < length (track_states (ls_session st)) then (st, Some IndexError)
              else
                (let state_i = strength * a_mix_strength args;
                     st1 = st\<lparr>ls_session := (ls_session st)
                              \<lparr>track_states := (track_states (ls_session st))[i := state_i]\<rparr>\<rparr>;
                     k = a_kwargs args;
                     st2 = (case (kw_ipadapter k i, kw_image k i) of
                              (Some ipa, Some im) \<Rightarrow>
                                st1\<lparr>ls_model := apply_ipadapter_to_model (ls_model st1) ipa im
                                       (case kw_ipa_weight k i of None \<Rightarrow> 1 | Some w \<Rightarrow> w)
                                       state_i\<rparr>
                            | _ \<Rightarrow> st1)
                 in case (kw_control_net k i, kw_cn_image k i) of
                      (Some cn, Some im) \<Rightarrow>
                        (case apply_controlnet_to_conditioning (ls_heap st2) (ls_positive st2)
                                (ls_negative st2) cn im
                                (case kw_cn_strength k i of None \<Rightarrow> 1 | Some w \<Rightarrow> w)
                                state_i of
                           (h', Inl e) \<Rightarrow> (st2\<lparr>ls_heap := h'\<rparr>, Some e)
                         | (h', Inr (p, n)) \<Rightarrow>
                             (st2\<lparr>ls_heap := h', ls_positive := p, ls_negative := n\<rparr>, None))
                    | _ \<Rightarrow> (st2, None))))
      else (st, None))"

text \<open>Line 388: the loop, over the list of channel indices.\<close>

fun process_tracks ::
  "call \<Rightarrow> event list list \<Rightarrow> int \<Rightarrow> int \<Rightarrow> nat list \<Rightarrow> loop_state
     \<Rightarrow> loop_state \<times> error option" where
  "process_tracks args tracks tempo ticks_per_beat [] st = (st, None)"
| "process_tracks args tracks tempo ticks_per_beat (i # is) st =
     (case process_track args tracks tempo ticks_per_beat i st of
        (st', Some e) \<Rightarrow> (st', Some e)
      | (st', None) \<Rightarrow> process_tracks args tracks tempo ticks_per_beat is st')"

text \<open>Lines 349-350: \<^verbatim>\<open>bars[min(int(state * 5), 5)]\<close>. \<^verbatim>\<open>int\<close> truncates towards zero,
  and a list of six elements has the indices \<open>-6\<close> to \<open>5\<close>.\<close>

definition bar_level :: "real \<Rightarrow> error + nat" where
  "bar_level state =
     (let bar_index = (if 0 \<le> state * 5 then \<lfloor>state * 5\<rfloor> else \<lceil>state * 5\<rceil>);
          j = min bar_index 5
      in if j < - 6 then Inl IndexError
         else Inr (nat (if j < 0 then j + 6 else j)))"

fun bar_levels :: "real list \<Rightarrow> error + nat list" where
  "bar_levels [] = Inr []"
| "bar_levels (x # xs) =
     (case bar_level x of
        Inl e \<Rightarrow> Inl e
      | Inr b \<Rightarrow> (case bar_levels xs of Inl e \<Rightarrow> Inl e | Inr bs \<Rightarrow> Inr (b # bs)))"

text \<open>What a call returns: the model and the conditioning, the numbers that
  \<^verbatim>\<open>debug_info\<close> prints (frame, fps, BPM and the bar of each of the first four
  strengths) and the strengths that \<^verbatim>\<open>mix_values\<close> prints. The formatting of the
  numbers as text is not modelled.\<close>

record mix_output =
  o_model :: pyval
  o_positive :: pyval
  o_negative :: pyval
  o_frame :: int
  o_fps :: int
  o_bpm :: real
  o_bars :: "nat list"
  o_mix_values :: "real list"

text \<open>The effect of a call: the object's fields and the store afterwards, the paths
  \<^verbatim>\<open>parse_midi_file\<close> was called with, and the value returned or the exception.\<close>

record outcome =
  r_session :: session
  r_heap :: heap
  r_parsed :: "string list"
  r_result :: "error + mix_output"

text \<open>Line 363: \<^verbatim>\<open>kwargs.get('midi_path', '')\<close>.\<close>

definition midi_path_of :: "call \<Rightarrow> string" where
  "midi_path_of args = (case kw_midi_path (a_kwargs args) of None \<Rightarrow> [] | Some p \<Rightarrow> p)"

text \<open>Lines 365-371: the fields after the cache check, and the paths
  \<^verbatim>\<open>parse_midi_file\<close> was called with.\<close>

definition update_cache :: "env \<Rightarrow> session \<Rightarrow> call \<Rightarrow> session \<times> string list" where
  "update_cache e s args =
     (let midi_path = midi_path_of args
      in if midi_path \<noteq> [] \<and> cached_midi_path s \<noteq> Some midi_path
         then (s\<lparr>midi_data := parse_midi_file e midi_path,
                 cached_midi_path := Some midi_path,
                 current_frame := a_frame_number args\<rparr>, [midi_path])
         else (s\<lparr>current_frame := a_frame_number args\<rparr>, []))"

text \<open>Lines 376-417: the loop over the four channels, entered only with parsed data.\<close>

definition run_tracks :: "heap \<Rightarrow> session \<Rightarrow> call \<Rightarrow> loop_state \<times> error option" where
  "run_tracks h s1 args =
     (let st0 = \<lparr>ls_session = s1, ls_heap = h, ls_model = a_model args,
                 ls_positive = a_positive args, ls_negative = a_negative args\<rparr>
      in case midi_data s1 of
           Some pm \<Rightarrow>
             process_tracks args (pm_tracks pm) (pm_tempo pm) (pm_ticks_per_beat pm)
               [0, 1, 2, 3] st0
         | None \<Rightarrow> (st0, None))"

text \<open>Line 374: the BPM reported.\<close>

definition bpm_of :: "session \<Rightarrow> real" where
  "bpm_of s1 = (case midi_data s1 of Some pm \<Rightarrow> pm_bpm pm | None \<Rightarrow> 120)"

text \<open>Lines 419-425: the value returned, or the exception of the loop or of the bars.\<close>

definition mix_result :: "call \<Rightarrow> real \<Rightarrow> loop_state \<Rightarrow> error option \<Rightarrow> error + mix_output"
  where
  "mix_result args bpm st err =
     (case err of
        Some x \<Rightarrow> Inl x
      | None \<Rightarrow>
          (case bar_levels (take 4 (track_states (ls_session st))) of
             Inl x \<Rightarrow> Inl x
           | Inr bars \<Rightarrow>
               Inr \<lparr>o_model = ls_model st, o_positive = ls_positive st,
                    o_negative = ls_negative st,
                    o_frame = a_frame_number args, o_fps = a_fps args,
                    o_bpm = bpm, o_bars = bars,
                    o_mix_values = track_states (ls_session st)\<rparr>))"

text \<open>Lines 358-425.\<close>

definition mix_with_midi :: "env \<Rightarrow> heap \<Rightarrow> session \<Rightarrow> call \<Rightarrow> outcome" where
  "mix_with_midi e h s args =
     (let (s1, parsed) = update_cache e s args;
          bpm = bpm_of s1;
          (st, err) = run_tracks h s1 args
      in \<lparr>r_session = ls_session st, r_heap = ls_heap st, r_parsed = parsed,
          r_result = mix_result args bpm st err\<rparr>)"

text \<open>A run of calls on the same object: the fields and the store are carried from one
  call to the next, whatever a call returned, and the parse calls are collected.\<close>

fun run_calls :: "env \<Rightarrow> heap \<Rightarrow> session \<Rightarrow> call list \<Rightarrow> heap \<times> session \<times> string list" where
  "run_calls e h s [] = (h, s, [])"
| "run_calls e h s (c # cs) =
     (let r = mix_with_midi e h s c;
          (h', s', ps) = run_calls e (r_heap r) (r_session r) cs
      in (h', s', r_parsed r @ ps))"

section \<open>Valid MIDI data\<close>

text \<open>Velocities are at most 127 and the resolution is positive, in a file as
  \<^verbatim>\<open>mido\<close> reads it and in the parsed data.\<close>


fun valid_msg :: "mido_msg \<Rightarrow> bool" where
  "valid_msg (NoteOnMsg dt n v) = (v \<le> 127)"
| "valid_msg (NoteOffMsg dt n v) = (v \<le> 127)"
| "valid_msg m = True"

definition valid_file :: "midi_file \<Rightarrow> bool" where
  "valid_file mid = (0 < mf_ticks_per_beat mid \<and> list_all (list_all valid_msg) (mf_tracks mid))"

definition valid_midi :: "parsed_midi \<Rightarrow> bool" where
  "valid_midi pm = (0 < pm_ticks_per_beat pm \<and>
     list_all (list_all (\<lambda>ev. ev_velocity ev \<le> 127)) (pm_tracks pm))"

section \<open>A small example\<close>

text \<open>Two files: \<^verbatim>\<open>a.mid\<close> has two tracks and a tempo of 600000 (100 BPM),
  \<^verbatim>\<open>b.mid\<close> has one track and no tempo message (120 BPM). Every note starts at
  tick 0 and never ends. No adapter and no ControlNet is connected.\<close>

definition example_env :: env where
  "example_env =
     \<lparr>midi_available = True,
      path_exists = (\<lambda>p. p = ''a.mid'' \<or> p = ''b.mid''),
      MidiFile = (\<lambda>p.
        if p = ''a.mid'' then
          Some \<lparr>mf_tracks = [[SetTempoMsg 0 600000, NoteOnMsg 0 60 100],
                              [NoteOnMsg 0 36 127]],
                mf_ticks_per_beat = 480\<rparr>
        else if p = ''b.mid'' then
          Some \<lparr>mf_tracks = [[NoteOnMsg 0 60 100]], mf_ticks_per_beat = 480\<rparr>
        else None)\<rparr>"

definition no_kwargs :: kwargs where
  "no_kwargs = \<lparr>kw_midi_path = None, kw_ipadapter = (\<lambda>i. None), kw_image = (\<lambda>i. None),
     kw_ipa_weight = (\<lambda>i. None), kw_control_net = (\<lambda>i. None), kw_cn_image = (\<lambda>i. None),
     kw_cn_strength = (\<lambda>i. None)\<rparr>"

definition example_call :: "string option \<Rightarrow> string \<Rightarrow> real \<Rightarrow> call" where
  "example_call path mode mix =
     \<lparr>a_model = HostObj 0, a_positive = Ref 0, a_negative = Ref 1, a_frame_number = 0,
      a_fps = 30, a_trigger_mode = mode, a_mix_strength = mix, a_decay_rate = 2,
      a_kwargs = no_kwargs\<lparr>kw_midi_path := path\<rparr>\<rparr>"

definition example_heap :: heap where
  "example_heap = [PyList [], PyList []]"

text \<open>A track where the first note is followed by an event of another note, then
  ended by a \<^verbatim>\<open>note_on\<close> of velocity 0 at tick 200.\<close>

definition overlap_track :: "event list" where
  "overlap_track =
     [\<lparr>ev_time = 0, ev_type = note_on, ev_note = 60, ev_velocity = 100\<rparr>,
      \<lparr>ev_time = 100, ev_type = note_off, ev_note = 62, ev_velocity = 0\<rparr>,
      \<lparr>ev_time = 200, ev_type = note_on, ev_note = 60, ev_velocity = 0\<rparr>,
      \<lparr>ev_time = 300, ev_type = note_off, ev_note = 60, ev_velocity = 64\<rparr>]"

section \<open>What a call may change in the store\<close>

text \<open>\<open>h'\<close> has every object of \<open>h\<close>, unchanged, except possibly the one at \<open>c\<close>.\<close>

definition frame_except :: "addr \<Rightarrow> heap \<Rightarrow> heap \<Rightarrow> bool" where
  "frame_except c h h' = (length h \<le> length h' \<and> (\<forall>a < length h. a \<noteq> c \<longrightarrow> h' ! a = h ! a))"

text \<open>Every object of \<open>h\<close> is in \<open>h'\<close>, unchanged.\<close>

definition extends :: "heap \<Rightarrow> heap \<Rightarrow> bool" where
  "extends h h' = (length h \<le> length h' \<and> take (length h) h' = h)"

text \<open>A conditioning entry the loop body accepts: a list of at least two elements whose
  second element is a dictionary; its \<^verbatim>\<open>'control'\<close> entry, if any, is a list.\<close>

definition entry_ok :: "heap \<Rightarrow> pyval \<Rightarrow> bool" where
  "entry_ok h t =
     (case lookup h t of
        Some (PyList items) \<Rightarrow>
          2 \<le> length items \<and>
          (case lookup h (items ! 1) of
             Some (PyDict d) \<Rightarrow>
               (case d ''control'' of
                  None \<Rightarrow> True
                | Some old \<Rightarrow>
                    (case lookup h old of Some (PyList olds) \<Rightarrow> True | _ \<Rightarrow> False))
           | _ \<Rightarrow> False)
      | _ \<Rightarrow> False)"

definition conditioning_ok :: "heap \<Rightarrow> pyval \<Rightarrow> bool" where
  "conditioning_ok h v =
     (case lookup h v of Some (PyList ts) \<Rightarrow> list_all (entry_ok h) ts | _ \<Rightarrow> False)"

text \<open>The entry \<open>n\<close> of the store \<open>h'\<close> is built from the entry \<open>t\<close> of the store \<open>h\<close>:
  \<open>n\<close> is a new two-element list with the first element of \<open>t\<close> and a new dictionary,
  which is the dictionary of \<open>t\<close> with \<^verbatim>\<open>'control'\<close> set to a new list: the old control
  list of \<open>t\<close> (none if \<open>t\<close> has none) followed by \<open>cnet_entry\<close>. None of the new
  objects is the object at \<open>c_out\<close>.\<close>

definition entry_built :: "heap \<Rightarrow> heap \<Rightarrow> addr \<Rightarrow> pyval \<Rightarrow> pyval \<Rightarrow> pyval \<Rightarrow> bool" where
  "entry_built h h' c_out cnet_entry t n =
     (\<exists>items d a_n a_d a_c olds.
        lookup h t = Some (PyList items) \<and> lookup h (items ! 1) = Some (PyDict d) \<and>
        n = Ref a_n \<and> length h \<le> a_n \<and> a_n < length h' \<and> a_n \<noteq> c_out \<and>
        h' ! a_n = PyList [items ! 0, Ref a_d] \<and>
        length h \<le> a_d \<and> a_d < length h' \<and> a_d \<noteq> c_out \<and>
        h' ! a_d = PyDict (d(''control'' \<mapsto> Ref a_c)) \<and>
        length h \<le> a_c \<and> a_c < length h' \<and> a_c \<noteq> c_out \<and>
        h' ! a_c = PyList (olds @ [cnet_entry]) \<and>
        (case d ''control'' of
           None \<Rightarrow> olds = []
         | Some old \<Rightarrow> lookup h old = Some (PyList olds)))"

text \<open>The value \<open>out\<close> is a new list of the store \<open>h'\<close> with one built entry for each
  entry of the conditioning \<open>cond\<close> of the store \<open>h\<close>, in the same order.\<close>

definition side_built :: "heap \<Rightarrow> heap \<Rightarrow> pyval \<Rightarrow> pyval \<Rightarrow> pyval \<Rightarrow> bool" where
  "side_built h h' cnet_entry cond out =
     (\<exists>c ts ns.
        out = Ref c \<and> length h \<le> c \<and> c < length h' \<and>
        lookup h cond = Some (PyList ts) \<and> h' ! c = PyList ns \<and>
        length ns = length ts \<and>
        (\<forall>k < length ts. entry_built h h' c cnet_entry (ts ! k) (ns ! k)))"

text \<open>A store with one positive conditioning of one entry (at address 2, the entry at
  address 1 and its dictionary at address 0) and an empty negative conditioning (at
  address 3).\<close>

definition conditioning_heap :: heap where
  "conditioning_heap =
     [PyDict Map.empty,
      PyList [TensorV (Tensor [1, 77, 768] 1), Ref 0],
      PyList [Ref 1],
      PyList []]"

section \<open>Properties of the strength computation\<close>

subsection \<open>The scan for the terminating event\<close>

lemma note_off_time_None:
  "note_off_time es n = None \<longleftrightarrow> (\<forall>j<length es. \<not> ends_note n (es ! j))"
proof (induction es)
  case Nil
  then show ?case by simp
next
  case (Cons e es)
  show ?case
  proof (cases "ends_note n e")
    case True
    then show ?thesis by auto
  next
    case False
    then show ?thesis using Cons.IH by (auto simp: nth_Cons split: nat.splits)
  qed
qed

lemma note_off_time_Some:
  "note_off_time es n = Some t \<longleftrightarrow>
     (\<exists>j<length es. ends_note n (es ! j) \<and> (\<forall>k<j. \<not> ends_note n (es ! k)) \<and>
        t = ev_time (es ! j))"
proof (induction es)
  case Nil
  then show ?case by simp
next
  case (Cons e es)
  show ?case
  proof (cases "ends_note n e")
    case True
    have "(\<exists>j<length (e # es). ends_note n ((e # es) ! j) \<and>
            (\<forall>k<j. \<not> ends_note n ((e # es) ! k)) \<and> t = ev_time ((e # es) ! j))
          \<longleftrightarrow> t = ev_time e"
    proof
      assume "\<exists>j<length (e # es). ends_note n ((e # es) ! j) \<and>
            (\<forall>k<j. \<not> ends_note n ((e # es) ! k)) \<and> t = ev_time ((e # es) ! j)"
      then obtain j where j: "j < length (e # es)" "\<forall>k<j. \<not> ends_note n ((e # es) ! k)"
        "t = ev_time ((e # es) ! j)" by blast
      have "j = 0"
      proof (rule ccontr)
        assume "j \<noteq> 0"
        then have "0 < j" by simp
        with j(2) have "\<not> ends_note n ((e # es) ! 0)" by blast
        with True show False by simp
      qed
      with j(3) show "t = ev_time e" by simp
    next
      assume "t = ev_time e"
      with True show "\<exists>j<length (e # es). ends_note n ((e # es) ! j) \<and>
            (\<forall>k<j. \<not> ends_note n ((e # es) ! k)) \<and> t = ev_time ((e # es) ! j)"
        by (intro exI[of _ 0]) simp
    qed
    with True show ?thesis by auto
  next
    case False
    have "(\<exists>j<length (e # es). ends_note n ((e # es) ! j) \<and>
            (\<forall>k<j. \<not> ends_note n ((e # es) ! k)) \<and> t = ev_time ((e # es) ! j))
          \<longleftrightarrow> (\<exists>j<length es. ends_note n (es ! j) \<and>
            (\<forall>k<j. \<not> ends_note n (es ! k)) \<and> t = ev_time (es ! j))"
      (is "?L \<longleftrightarrow> ?R")
    proof
      assume ?L
      then obtain j where j: "j < length (e # es)" "ends_note n ((e # es) ! j)"
        "\<forall>k<j. \<not> ends_note n ((e # es) ! k)" "t = ev_time ((e # es) ! j)" by blast
      from j(2) False obtain j' where j': "j = Suc j'" by (cases j) auto
      have "\<forall>k<j'. \<not> ends_note n (es ! k)"
      proof (intro allI impI)
        fix k assume "k < j'"
        then have "Suc k < j" using j' by simp
        with j(3) have "\<not> ends_note n ((e # es) ! Suc k)" by blast
        then show "\<not> ends_note n (es ! k)" by simp
      qed
      with j j' show ?R by (intro exI[of _ j']) simp
    next
      assume ?R
      then obtain j where j: "j < length es" "ends_note n (es ! j)"
        "\<forall>k<j. \<not> ends_note n (es ! k)" "t = ev_time (es ! j)" by blast
      have "\<forall>k<Suc j. \<not> ends_note n ((e # es) ! k)"
      proof (intro allI impI)
        fix k assume "k < Suc j"
        then show "\<not> ends_note n ((e # es) ! k)"
          using False j(3) by (cases k) auto
      qed
      with j show ?L by (intro exI[of _ "Suc j"]) simp
    qed
    with False Cons.IH show ?thesis by simp
  qed
qed

lemma is_active_iff:
  assumes "i < length track" "ev_type (track ! i) = note_on" "0 < ev_velocity (track ! i)"
    "real_of_int (ev_time (track ! i)) \<le> t"
  shows "is_active track t i \<longleftrightarrow>
     ((\<forall>j. i < j \<and> j < length track \<longrightarrow> \<not> ends_note (ev_note (track ! i)) (track ! j)) \<or>
      (\<exists>j. i < j \<and> j < length track \<and> ends_note (ev_note (track ! i)) (track ! j) \<and>
           (\<forall>k. i < k \<and> k < j \<longrightarrow> \<not> ends_note (ev_note (track ! i)) (track ! k)) \<and>
           t < real_of_int (ev_time (track ! j))))"
  (is "_ \<longleftrightarrow> (?NONE \<or> ?FIRST)")
proof -
  let ?n = "ev_note (track ! i)"
  let ?es = "drop (i + 1) track"
  have len: "length ?es = length track - (i + 1)" by simp
  have nth: "\<And>j. j < length ?es \<Longrightarrow> ?es ! j = track ! (i + 1 + j)"
    using assms(1) by simp
  have none: "note_off_time ?es ?n = None \<longleftrightarrow> ?NONE"
  proof
    assume h: "note_off_time ?es ?n = None"
    show ?NONE
    proof (intro allI impI)
      fix j assume j: "i < j \<and> j < length track"
      then have "j - (i + 1) < length ?es" by auto
      with h have "\<not> ends_note ?n (?es ! (j - (i + 1)))"
        unfolding note_off_time_None by blast
      moreover have "?es ! (j - (i + 1)) = track ! j" using j by auto
      ultimately show "\<not> ends_note ?n (track ! j)" by simp
    qed
  next
    assume h: ?NONE
    show "note_off_time ?es ?n = None"
      unfolding note_off_time_None
    proof (intro allI impI)
      fix j assume "j < length ?es"
      then have "i < i + 1 + j \<and> i + 1 + j < length track" by auto
      with h have "\<not> ends_note ?n (track ! (i + 1 + j))" by blast
      then show "\<not> ends_note ?n (?es ! j)" using assms(1) by simp
    qed
  qed
  have some: "\<And>u. note_off_time ?es ?n = Some u \<longleftrightarrow>
      (\<exists>j. i < j \<and> j < length track \<and> ends_note ?n (track ! j) \<and>
           (\<forall>k. i < k \<and> k < j \<longrightarrow> \<not> ends_note ?n (track ! k)) \<and> u = ev_time (track ! j))"
  proof
    fix u
    assume "note_off_time ?es ?n = Some u"
    then obtain j where j: "j < length ?es" "ends_note ?n (?es ! j)"
      "\<forall>k<j. \<not> ends_note ?n (?es ! k)" "u = ev_time (?es ! j)"
      unfolding note_off_time_Some by blast
    have a: "i < i + 1 + j \<and> i + 1 + j < length track" using j(1) by auto
    have b: "?es ! j = track ! (i + 1 + j)" using assms(1) by simp
    have c: "\<forall>k. i < k \<and> k < i + 1 + j \<longrightarrow> \<not> ends_note ?n (track ! k)"
    proof (intro allI impI)
      fix k assume k: "i < k \<and> k < i + 1 + j"
      then have "k - (i + 1) < j" by auto
      with j(3) have "\<not> ends_note ?n (?es ! (k - (i + 1)))" by blast
      moreover have "?es ! (k - (i + 1)) = track ! k" using k a by auto
      ultimately show "\<not> ends_note ?n (track ! k)" by simp
    qed
    from a b c j(2,4)
    show "\<exists>j. i < j \<and> j < length track \<and> ends_note ?n (track ! j) \<and>
           (\<forall>k. i < k \<and> k < j \<longrightarrow> \<not> ends_note ?n (track ! k)) \<and> u = ev_time (track ! j)"
      by (intro exI[of _ "i + 1 + j"]) simp
  next
    fix u
    assume "\<exists>j. i < j \<and> j < length track \<and> ends_note ?n (track ! j) \<and>
           (\<forall>k. i < k \<and> k < j \<longrightarrow> \<not> ends_note ?n (track ! k)) \<and> u = ev_time (track ! j)"
    then obtain j where j: "i < j" "j < length track" "ends_note ?n (track ! j)"
      "\<forall>k. i < k \<and> k < j \<longrightarrow> \<not> ends_note ?n (track ! k)" "u = ev_time (track ! j)"
      by blast
    let ?j = "j - (i + 1)"
    have a: "?j < length ?es" using j(1,2) by auto
    have b: "?es ! ?j = track ! j" using j(1,2) by auto
    have c: "\<forall>k<?j. \<not> ends_note ?n (?es ! k)"
    proof (intro allI impI)
      fix k assume k: "k < ?j"
      then have "i < i + 1 + k \<and> i + 1 + k < j" by auto
      with j(4) have "\<not> ends_note ?n (track ! (i + 1 + k))" by blast
      moreover have "?es ! k = track ! (i + 1 + k)" using k j(1,2) by auto
      ultimately show "\<not> ends_note ?n (?es ! k)" by simp
    qed
    show "note_off_time ?es ?n = Some u"
      unfolding note_off_time_Some using a b c j(3,5) by (intro exI[of _ ?j]) simp
  qed
  show ?thesis
  proof (cases "note_off_time ?es ?n")
    case None
    then have "is_active track t i" using assms by (simp add: is_active_def)
    moreover have ?NONE using None none by simp
    ultimately show ?thesis by blast
  next
    case (Some u)
    then have act: "is_active track t i \<longleftrightarrow> t < real_of_int u"
      using assms by (simp add: is_active_def)
    from Some obtain j where j: "i < j" "j < length track" "ends_note ?n (track ! j)"
      "\<forall>k. i < k \<and> k < j \<longrightarrow> \<not> ends_note ?n (track ! k)" "u = ev_time (track ! j)"
      using some by blast
    have notnone: "\<not> ?NONE" using j(1,2,3) by blast
    have "?FIRST \<longleftrightarrow> t < real_of_int u"
    proof
      assume ?FIRST
      then obtain j' where j': "i < j'" "j' < length track" "ends_note ?n (track ! j')"
        "\<forall>k. i < k \<and> k < j' \<longrightarrow> \<not> ends_note ?n (track ! k)"
        "t < real_of_int (ev_time (track ! j'))" by blast
      have "j' = j"
      proof (rule ccontr)
        assume "j' \<noteq> j"
        then consider "j' < j" | "j < j'" by linarith
        then show False
        proof cases
          case 1 with j(4) j'(1,3) show False by blast
        next
          case 2 with j'(4) j(1,3) show False by blast
        qed
      qed
      with j'(5) j(5) show "t < real_of_int u" by simp
    next
      assume "t < real_of_int u"
      with j show ?FIRST by blast
    qed
    with act notnone show ?thesis by blast
  qed
qed

lemma set_active_indices:
  "i \<in> set (active_indices track t) \<longleftrightarrow> i < length track \<and> is_active track t i"
  by (auto simp: active_indices_def)

subsection \<open>The most recent active note\<close>

lemma max_by_time_mem: "max_by_time m xs \<in> set (m # xs)"
  by (induction xs arbitrary: m) auto

lemma max_by_time_start: "ev_time m \<le> ev_time (max_by_time m xs)"
proof (induction xs arbitrary: m)
  case Nil
  then show ?case by simp
next
  case (Cons y ys)
  show ?case
    using Cons.IH[of "if ev_time m < ev_time y then y else m"]
    by (simp split: if_splits)
qed

lemma max_by_time_ge: "x \<in> set (m # xs) \<Longrightarrow> ev_time x \<le> ev_time (max_by_time m xs)"
proof (induction xs arbitrary: m)
  case Nil
  then show ?case by simp
next
  case (Cons y ys)
  show ?case
  proof (cases "x \<in> set ys")
    case True
    then show ?thesis using Cons.IH by simp
  next
    case False
    with Cons.prems have "x = m \<or> x = y" by auto
    then show ?thesis
      using max_by_time_start[of "if ev_time m < ev_time y then y else m" ys]
      by (auto split: if_splits)
  qed
qed

lemma most_recent_of_mem: "most_recent_of ns = Some m \<Longrightarrow> m \<in> set ns"
  using max_by_time_mem by (auto simp: most_recent_of_def split: list.splits)

lemma most_recent_of_ge:
  "most_recent_of ns = Some m \<Longrightarrow> x \<in> set ns \<Longrightarrow> ev_time x \<le> ev_time m"
  using max_by_time_ge by (auto simp: most_recent_of_def split: list.splits)

lemma active_notes_mem:
  "e \<in> set (active_notes track t) \<Longrightarrow>
     0 < ev_velocity e \<and> ev_type e = note_on \<and> real_of_int (ev_time e) \<le> t"
  by (auto simp: active_notes_def active_indices_def is_active_def Let_def)

lemma pulse_decay_mono:
  fixes t1 t2 d :: real
  assumes "t1 \<le> t2" "0 < b" "0 \<le> d"
  shows "max 0 (1 - (t2 - a) / b * d) \<le> max 0 (1 - (t1 - a) / b * d)"
proof -
  have "(t1 - a) / b \<le> (t2 - a) / b" using assms by (simp add: divide_right_mono)
  then have "(t1 - a) / b * d \<le> (t2 - a) / b * d" using assms(3) by (rule mult_right_mono)
  then show ?thesis by simp
qed

lemma strength_at_tick_Pulse:
  assumes "most_recent_of (active_notes track t) = Some m" "tpb \<noteq> 0"
  shows "strength_at_tick track t ''Pulse'' tpb d =
    Inr (real_of_int (ev_velocity m) / 127 *
          max 0 (1 - (t - real_of_int (ev_time m)) / real_of_int tpb * d))"
proof -
  have "active_notes track t \<noteq> []" using assms(1) by (auto simp: most_recent_of_def)
  then show ?thesis using assms
    by (simp add: strength_at_tick_def pulse_strength_def Let_def)
qed

lemma strength_at_tick_Toggle:
  "strength_at_tick track t ''Toggle'' tpb d =
     Inr (if active_notes track t = [] then 0
          else if odd (note_on_count track t) then 1 else 0)"
  by (simp add: strength_at_tick_def Let_def odd_iff_mod_2_eq_one)

lemma active_note_scan:
  assumes "i < length track" and "ev_type (track ! i) = note_on"
    and "0 < ev_velocity (track ! i)" and "real_of_int (ev_time (track ! i)) \<le> t"
  shows "(i \<in> set (active_indices track t) \<longleftrightarrow>
     ((\<forall>j. i < j \<and> j < length track \<longrightarrow> \<not> ends_note (ev_note (track ! i)) (track ! j)) \<or>
      (\<exists>j. i < j \<and> j < length track \<and> ends_note (ev_note (track ! i)) (track ! j) \<and>
           (\<forall>k. i < k \<and> k < j \<longrightarrow> \<not> ends_note (ev_note (track ! i)) (track ! k)) \<and>
           t < real_of_int (ev_time (track ! j))))) \<and>
    (\<forall>j. i < j \<and> j < length track \<and> ends_note (ev_note (track ! i)) (track ! j) \<and>
          (\<forall>k. i < k \<and> k < j \<longrightarrow> \<not> ends_note (ev_note (track ! i)) (track ! k)) \<longrightarrow>
       (t < real_of_int (ev_time (track ! j)) \<longrightarrow> i \<in> set (active_indices track t)) \<and>
       (real_of_int (ev_time (track ! j)) \<le> t \<longrightarrow> i \<notin> set (active_indices track t))) \<and>
    active_notes track t = map (\<lambda>i. track ! i) (active_indices track t)"
proof -
  let ?n = "ev_note (track ! i)"
  have mem: "i \<in> set (active_indices track t) \<longleftrightarrow> is_active track t i"
    using assms(1) by (simp add: set_active_indices)
  note iff = is_active_iff[OF assms]
  have part: "\<forall>j. i < j \<and> j < length track \<and> ends_note ?n (track ! j) \<and>
          (\<forall>k. i < k \<and> k < j \<longrightarrow> \<not> ends_note ?n (track ! k)) \<longrightarrow>
       (t < real_of_int (ev_time (track ! j)) \<longrightarrow> is_active track t i) \<and>
       (real_of_int (ev_time (track ! j)) \<le> t \<longrightarrow> \<not> is_active track t i)"
  proof (intro allI impI conjI)
    fix j
    assume j: "i < j \<and> j < length track \<and> ends_note ?n (track ! j) \<and>
          (\<forall>k. i < k \<and> k < j \<longrightarrow> \<not> ends_note ?n (track ! k))"
    assume "t < real_of_int (ev_time (track ! j))"
    with j show "is_active track t i" unfolding iff by blast
  next
    fix j
    assume j: "i < j \<and> j < length track \<and> ends_note ?n (track ! j) \<and>
          (\<forall>k. i < k \<and> k < j \<longrightarrow> \<not> ends_note ?n (track ! k))"
    assume late: "real_of_int (ev_time (track ! j)) \<le> t"
    show "\<not> is_active track t i"
    proof
      assume "is_active track t i"
      then consider
          (none) "\<forall>j. i < j \<and> j < length track \<longrightarrow> \<not> ends_note ?n (track ! j)"
        | (first) j' where "i < j'" "j' < length track" "ends_note ?n (track ! j')"
            "\<forall>k. i < k \<and> k < j' \<longrightarrow> \<not> ends_note ?n (track ! k)"
            "t < real_of_int (ev_time (track ! j'))"
        unfolding iff by blast
      then show False
      proof cases
        case none
        with j show False by blast
      next
        case first
        have "j' = j"
        proof (rule ccontr)
          assume "j' \<noteq> j"
          then consider "j' < j" | "j < j'" by linarith
          then show False
          proof cases
            case 1 with j first(1,3) show False by blast
          next
            case 2 with first(4) j show False by blast
          qed
        qed
        with first(5) late show False by simp
      qed
    qed
  qed
  show ?thesis
    unfolding mem using iff part by (simp add: active_notes_def)
qed

text \<open>
  C6. For an event at position \<open>i\<close> that is a \<^verbatim>\<open>note_on\<close> of positive velocity at or
  before the tick \<open>t\<close>: it is appended to the active notes iff no later event of the
  track (in stored order) has the same note number and is a \<^verbatim>\<open>note_off\<close> or has
  velocity 0, or the first such event has a time strictly after \<open>t\<close>. In particular,
  with \<open>j\<close> the first such event, the note is active at every tick from its own time
  up to, but excluding, the time of \<open>j\<close>, and inactive at every tick from the time of
  \<open>j\<close> on. Membership is by position, as the source appends the event object itself.
\<close>

theorem active_note_characterisation:
  assumes "i < length track" and "ev_type (track ! i) = note_on"
    and "0 < ev_velocity (track ! i)" and "real_of_int (ev_time (track ! i)) \<le> t"
  shows "(i \<in> set (active_indices track t) \<longleftrightarrow>
     ((\<forall>j. i < j \<and> j < length track \<longrightarrow>
           \<not> (ev_note (track ! j) = ev_note (track ! i) \<and>
              (ev_type (track ! j) = note_off \<or> ev_velocity (track ! j) = 0))) \<or>
      (\<exists>j. i < j \<and> j < length track \<and>
           (ev_note (track ! j) = ev_note (track ! i) \<and>
            (ev_type (track ! j) = note_off \<or> ev_velocity (track ! j) = 0)) \<and>
           (\<forall>k. i < k \<and> k < j \<longrightarrow>
                \<not> (ev_note (track ! k) = ev_note (track ! i) \<and>
                   (ev_type (track ! k) = note_off \<or> ev_velocity (track ! k) = 0))) \<and>
           t < real_of_int (ev_time (track ! j))))) \<and>
    (\<forall>j. i < j \<and> j < length track \<and>
          (ev_note (track ! j) = ev_note (track ! i) \<and>
           (ev_type (track ! j) = note_off \<or> ev_velocity (track ! j) = 0)) \<and>
          (\<forall>k. i < k \<and> k < j \<longrightarrow>
               \<not> (ev_note (track ! k) = ev_note (track ! i) \<and>
                  (ev_type (track ! k) = note_off \<or> ev_velocity (track ! k) = 0))) \<longrightarrow>
       (t < real_of_int (ev_time (track ! j)) \<longrightarrow> i \<in> set (active_indices track t)) \<and>
       (real_of_int (ev_time (track ! j)) \<le> t \<longrightarrow> i \<notin> set (active_indices track t))) \<and>
    active_notes track t = map (\<lambda>i. track ! i) (active_indices track t)"
  using active_note_scan[OF assms] unfolding ends_note_def .

theorem active_note_characterisation_witness:
  "(0::nat) < length overlap_track \<and>
   ev_type (overlap_track ! 0) = note_on \<and> 0 < ev_velocity (overlap_track ! 0) \<and>
   ev_note (overlap_track ! 1) \<noteq> ev_note (overlap_track ! 0) \<and>
   ev_note (overlap_track ! 2) = ev_note (overlap_track ! 0) \<and>
   ev_type (overlap_track ! 2) = note_on \<and> ev_velocity (overlap_track ! 2) = 0 \<and>
   0 \<in> set (active_indices overlap_track 150) \<and>
   0 \<notin> set (active_indices overlap_track 200) \<and>
   0 \<notin> set (active_indices overlap_track 250)"
proof -
  have len: "(0::nat) < length overlap_track" by (simp add: overlap_track_def)
  have on: "ev_type (overlap_track ! 0) = note_on" "0 < ev_velocity (overlap_track ! 0)"
    by (simp_all add: overlap_track_def)
  have t150: "real_of_int (ev_time (overlap_track ! 0)) \<le> 150"
    and t200: "real_of_int (ev_time (overlap_track ! 0)) \<le> 200"
    and t250: "real_of_int (ev_time (overlap_track ! 0)) \<le> 250"
    by (simp_all add: overlap_track_def)
  have first: "(0::nat) < 2 \<and> 2 < length overlap_track \<and>
          (ev_note (overlap_track ! 2) = ev_note (overlap_track ! 0) \<and>
           (ev_type (overlap_track ! 2) = note_off \<or> ev_velocity (overlap_track ! 2) = 0)) \<and>
          (\<forall>k. 0 < k \<and> k < 2 \<longrightarrow>
               \<not> (ev_note (overlap_track ! k) = ev_note (overlap_track ! 0) \<and>
                  (ev_type (overlap_track ! k) = note_off \<or>
                   ev_velocity (overlap_track ! k) = 0)))"
  proof -
    have "\<forall>k::nat. 0 < k \<and> k < 2 \<longrightarrow> k = 1" by auto
    then show ?thesis by (auto simp: overlap_track_def)
  qed
  have time2: "real_of_int (ev_time (overlap_track ! 2)) = 200"
    by (simp add: overlap_track_def)
  note at150 = active_note_characterisation[OF len on t150, THEN conjunct2, THEN conjunct1,
      THEN spec, of 2]
  note at200 = active_note_characterisation[OF len on t200, THEN conjunct2, THEN conjunct1,
      THEN spec, of 2]
  note at250 = active_note_characterisation[OF len on t250, THEN conjunct2, THEN conjunct1,
      THEN spec, of 2]
  from at150 first time2 have a: "0 \<in> set (active_indices overlap_track 150)" by simp
  from at200 first time2 have b: "0 \<notin> set (active_indices overlap_track 200)" by simp
  from at250 first time2 have c: "0 \<notin> set (active_indices overlap_track 250)" by simp
  from len on a b c show ?thesis by (simp add: overlap_track_def)
qed

text \<open>
  C7. In Pulse mode, while the most recent active note (the first active note of latest
  time) stays the same note \<open>m\<close>, with a positive \<open>ticks_per_beat\<close> and a non-negative
  decay rate: the strength is \<open>velocity/127 * max 0 (1 - (t - time)/ticks_per_beat *
  decay_rate)\<close>, it does not increase as the tick grows, and it is exactly 0 once the
  elapsed beats times the decay rate reach 1.
\<close>

theorem pulse_non_increasing:
  assumes "most_recent_of (active_notes track t1) = Some m"
    and "most_recent_of (active_notes track t2) = Some m"
    and "t1 \<le> t2" and "0 < tpb" and "0 \<le> d"
  shows "\<exists>s1 s2.
      strength_at_tick track t1 ''Pulse'' tpb d = Inr s1 \<and>
      strength_at_tick track t2 ''Pulse'' tpb d = Inr s2 \<and>
      s1 = real_of_int (ev_velocity m) / 127 *
             max 0 (1 - (t1 - real_of_int (ev_time m)) / real_of_int tpb * d) \<and>
      s2 = real_of_int (ev_velocity m) / 127 *
             max 0 (1 - (t2 - real_of_int (ev_time m)) / real_of_int tpb * d) \<and>
      s2 \<le> s1 \<and>
      (1 \<le> (t2 - real_of_int (ev_time m)) / real_of_int tpb * d \<longrightarrow> s2 = 0) \<and>
      (\<forall>n \<in> set (active_notes track t2). ev_time n \<le> ev_time m)"
proof -
  have tpb: "tpb \<noteq> 0" "0 < real_of_int tpb" using assms(4) by simp_all
  have v: "0 \<le> real_of_int (ev_velocity m) / 127"
    using active_notes_mem[OF most_recent_of_mem[OF assms(1)]] by simp
  have le: "real_of_int (ev_velocity m) / 127 *
             max 0 (1 - (t2 - real_of_int (ev_time m)) / real_of_int tpb * d)
        \<le> real_of_int (ev_velocity m) / 127 *
             max 0 (1 - (t1 - real_of_int (ev_time m)) / real_of_int tpb * d)"
    by (rule mult_left_mono[OF pulse_decay_mono[OF assms(3) tpb(2) assms(5)] v])
  have z: "1 \<le> (t2 - real_of_int (ev_time m)) / real_of_int tpb * d \<longrightarrow>
      real_of_int (ev_velocity m) / 127 *
             max 0 (1 - (t2 - real_of_int (ev_time m)) / real_of_int tpb * d) = 0"
    by simp
  have latest: "\<forall>n \<in> set (active_notes track t2). ev_time n \<le> ev_time m"
    using most_recent_of_ge[OF assms(2)] by blast
  show ?thesis
    using strength_at_tick_Pulse[OF assms(1) tpb(1), of d]
      strength_at_tick_Pulse[OF assms(2) tpb(1), of d] le z latest
    by blast
qed

theorem pulse_non_increasing_witness:
  "most_recent_of (active_notes
      [\<lparr>ev_time = 0, ev_type = note_on, ev_note = 60, ev_velocity = 100\<rparr>] 120)
     = Some \<lparr>ev_time = 0, ev_type = note_on, ev_note = 60, ev_velocity = 100\<rparr> \<and>
   strength_at_tick
      [\<lparr>ev_time = 0, ev_type = note_on, ev_note = 60, ev_velocity = 100\<rparr>]
      120 ''Pulse'' 480 2 = Inr (50 / 127) \<and>
   strength_at_tick
      [\<lparr>ev_time = 0, ev_type = note_on, ev_note = 60, ev_velocity = 100\<rparr>]
      240 ''Pulse'' 480 2 = Inr 0"
  using pulse_non_increasing[of
      "[\<lparr>ev_time = 0, ev_type = note_on, ev_note = 60, ev_velocity = 100\<rparr>]" 120
      "\<lparr>ev_time = 0, ev_type = note_on, ev_note = 60, ev_velocity = 100\<rparr>" 240 480 2]
  by (simp add: strength_at_tick_def pulse_strength_def most_recent_of_def
      active_notes_def active_indices_def is_active_def)

text \<open>
  C1. The track \<open>[note_on 60 at tick 0, note_off 60 at tick 960]\<close> at frame 60, 30 fps,
  tempo 500000 and 480 ticks per beat: the tick position is 1920, one \<^verbatim>\<open>note_on\<close> of
  positive velocity lies at or before it (an odd count), no note is active, and the
  Toggle strength the code returns is 0.
\<close>

theorem toggle_after_note_off:
  "midi_time_of 60 30 500000 480 = Inr 1920 \<and>
   odd (note_on_count
     [\<lparr>ev_time = 0, ev_type = note_on, ev_note = 60, ev_velocity = 100\<rparr>,
      \<lparr>ev_time = 960, ev_type = note_off, ev_note = 60, ev_velocity = 0\<rparr>] 1920) \<and>
   active_notes
     [\<lparr>ev_time = 0, ev_type = note_on, ev_note = 60, ev_velocity = 100\<rparr>,
      \<lparr>ev_time = 960, ev_type = note_off, ev_note = 60, ev_velocity = 0\<rparr>] 1920 = [] \<and>
   get_track_strength_at_frame
     [\<lparr>ev_time = 0, ev_type = note_on, ev_note = 60, ev_velocity = 100\<rparr>,
      \<lparr>ev_time = 960, ev_type = note_off, ev_note = 60, ev_velocity = 0\<rparr>]
     60 30 ''Toggle'' 480 500000 2 = Inr 0"
  by (simp add: get_track_strength_at_frame_def midi_time_of_def strength_at_tick_def
      active_notes_def active_indices_def is_active_def note_on_count_def ends_note_def
      upt_rec)

subsection \<open>Rounding to the nearest double\<close>

lemma bit_length_bounds:
  "0 < n \<Longrightarrow> 2 ^ (bit_length n - 1) \<le> n \<and> n < 2 ^ bit_length n"
proof (induction n rule: bit_length.induct)
  case 1
  then show ?case by simp
next
  case (2 n)
  show ?case
  proof (cases "Suc n div 2 = 0")
    case True
    then have "n = 0" by auto
    then show ?thesis by simp
  next
    case False
    then have pos: "0 < Suc n div 2" by simp
    from 2(1)[OF pos] have lo: "2 ^ (bit_length (Suc n div 2) - 1) \<le> Suc n div 2"
      and hi: "Suc n div 2 < 2 ^ bit_length (Suc n div 2)" by simp_all
    have bpos: "0 < bit_length (Suc n div 2)"
      using pos by (cases "Suc n div 2") simp_all
    then obtain k where k: "bit_length (Suc n div 2) = Suc k"
      by (cases "bit_length (Suc n div 2)") simp_all
    have "2 * 2 ^ k \<le> 2 * (Suc n div 2)" using lo k by simp
    also have "\<dots> \<le> Suc n" by simp
    finally have a: "2 ^ Suc k \<le> Suc n" by simp
    have "Suc n < 2 * (Suc n div 2) + 2" by presburger
    also have "\<dots> \<le> 2 * 2 ^ Suc k" using hi k by simp
    finally have b: "Suc n < 2 ^ Suc (Suc k)" by simp
    show ?thesis using a b k by simp
  qed
qed

lemma expo_bounds:
  assumes "0 < x"
  shows "2 powi (expo x) \<le> x \<and> x < 2 powi (expo x + 1)"
proof (cases "1 \<le> x")
  case True
  define n where "n = nat \<lfloor>x\<rfloor>"
  have n1: "0 < n" using True by (simp add: n_def)
  have nx: "real n \<le> x" "x < real n + 1"
    using True by (simp_all add: n_def)
  from bit_length_bounds[OF n1] have lo: "2 ^ (bit_length n - 1) \<le> n"
    and hi: "n < 2 ^ bit_length n" by simp_all
  have bpos: "0 < bit_length n" using n1 by (cases n) simp_all
  have e: "expo x = int (bit_length n) - 1" using True by (simp add: expo_def n_def)
  have e1: "(2::real) powi (int (bit_length n) - 1) = 2 ^ (bit_length n - 1)"
    using bpos by (simp add: power_int_def nat_diff_distrib' )
  have e2: "(2::real) powi (int (bit_length n) - 1 + 1) = 2 ^ bit_length n"
    by (simp add: power_int_def)
  have lo': "(2::real) ^ (bit_length n - 1) \<le> real n"
    using lo by (metis of_nat_le_iff of_nat_numeral of_nat_power)
  have hi': "real n + 1 \<le> 2 ^ bit_length n"
    using hi by (metis Suc_leI of_nat_Suc of_nat_le_iff of_nat_numeral of_nat_power add.commute)
  show ?thesis unfolding e e1 e2 using nx lo' hi' by linarith
next
  case False
  define y where "y = 1 / x"
  have x1: "x < 1" using False by simp
  have y1: "1 < y" using assms x1 by (simp add: y_def)
  define n where "n = nat (\<lceil>y\<rceil> - 1)"
  have c2: "2 \<le> \<lceil>y\<rceil>" using y1 by linarith
  have n1: "0 < n" using c2 by (simp add: n_def)
  have ny: "real n < y" "y \<le> real n + 1"
    using c2 unfolding n_def by linarith+
  from bit_length_bounds[OF n1] have lo: "2 ^ (bit_length n - 1) \<le> n"
    and hi: "n < 2 ^ bit_length n" by simp_all
  have bpos: "0 < bit_length n" using n1 by (cases n) simp_all
  have e: "expo x = - int (bit_length n)" using False by (simp add: expo_def n_def y_def)
  have lo': "(2::real) ^ (bit_length n - 1) \<le> real n"
    using lo by (metis of_nat_le_iff of_nat_numeral of_nat_power)
  have hi': "real n + 1 \<le> 2 ^ bit_length n"
    using hi by (metis Suc_leI of_nat_Suc of_nat_le_iff of_nat_numeral of_nat_power add.commute)
  have ylo: "(2::real) ^ (bit_length n - 1) < y" using lo' ny by linarith
  have yhi: "y \<le> 2 ^ bit_length n" using hi' ny by linarith
  have p1: "(2::real) powi (- int (bit_length n)) = 1 / 2 ^ bit_length n"
    by (simp add: power_int_def field_simps)
  have p2: "(2::real) powi (- int (bit_length n) + 1) = 1 / 2 ^ (bit_length n - 1)"
    using bpos by (cases "bit_length n") (simp_all add: power_int_def field_simps nat_diff_distrib')
  have xy: "x = 1 / y" using assms by (simp add: y_def)
  have a: "1 / 2 ^ bit_length n \<le> x"
    unfolding xy using yhi y1 by (simp add: field_simps)
  have b: "x < 1 / 2 ^ (bit_length n - 1)"
    unfolding xy using ylo y1 by (simp add: field_simps)
  show ?thesis unfolding e p1 p2 using a b by simp
qed


lemma expo_eqI:
  assumes "0 < x" and "2 powi e \<le> x" and "x < 2 powi (e + 1)"
  shows "expo x = e"
proof -
  from expo_bounds[OF assms(1)] have lo: "2 powi (expo x) \<le> x"
    and hi: "x < 2 powi (expo x + 1)" by simp_all
  have "\<not> e + 1 \<le> expo x"
  proof
    assume "e + 1 \<le> expo x"
    then have "(2::real) powi (e + 1) \<le> 2 powi (expo x)"
      by (rule power_int_increasing) simp
    then show False using lo assms(3) by linarith
  qed
  moreover have "\<not> expo x + 1 \<le> e"
  proof
    assume "expo x + 1 \<le> e"
    then have "(2::real) powi (expo x + 1) \<le> 2 powi e"
      by (rule power_int_increasing) simp
    then show False using hi assms(2) by linarith
  qed
  ultimately show ?thesis by linarith
qed

lemma expo_mono:
  assumes "0 < x" and "x \<le> y"
  shows "expo x \<le> expo y"
proof (rule ccontr)
  assume "\<not> expo x \<le> expo y"
  then have "expo y + 1 \<le> expo x" by simp
  then have "(2::real) powi (expo y + 1) \<le> 2 powi (expo x)"
    by (rule power_int_increasing) simp
  moreover have "2 powi (expo x) \<le> x" using expo_bounds[OF assms(1)] by simp
  moreover have "y < 2 powi (expo y + 1)" using expo_bounds[of y] assms by simp
  ultimately show False using assms(2) by linarith
qed

lemma round_half_even_of_int: "round_half_even (of_int n) = n"
  by (simp add: round_half_even_def)

lemma round_half_even_err: "\<bar>of_int (round_half_even x) - x\<bar> \<le> 1 / 2"
proof -
  have "of_int \<lfloor>x\<rfloor> \<le> x" "x < of_int \<lfloor>x\<rfloor> + 1" by linarith+
  then show ?thesis by (auto simp add: round_half_even_def Let_def)
qed

lemma round_half_even_mono:
  assumes "x \<le> y"
  shows "round_half_even x \<le> round_half_even y"
proof -
  have fx: "of_int \<lfloor>x\<rfloor> \<le> x" "x < of_int \<lfloor>x\<rfloor> + 1" by linarith+
  have fy: "of_int \<lfloor>y\<rfloor> \<le> y" "y < of_int \<lfloor>y\<rfloor> + 1" by linarith+
  have le: "\<lfloor>x\<rfloor> \<le> \<lfloor>y\<rfloor>" using assms by (rule floor_mono)
  have rx: "round_half_even x \<le> \<lfloor>x\<rfloor> + 1"
    by (simp add: round_half_even_def Let_def)
  have ry: "\<lfloor>y\<rfloor> \<le> round_half_even y"
    by (simp add: round_half_even_def Let_def)
  show ?thesis
  proof (cases "\<lfloor>x\<rfloor> = \<lfloor>y\<rfloor>")
    case True
    then show ?thesis using assms by (auto simp add: round_half_even_def Let_def)
  next
    case False
    then have "\<lfloor>x\<rfloor> + 1 \<le> \<lfloor>y\<rfloor>" using le by simp
    then show ?thesis using rx ry by linarith
  qed
qed

lemma rnd_pos_def:
  assumes "0 < x"
  shows "rnd x = of_int (round_half_even (x / 2 powi (expo x - 52))) * 2 powi (expo x - 52)"
  using assms by (simp add: rnd_def Let_def)

lemma powi_split: "(2::real) powi a = 2 powi (a - b) * 2 powi b"
  by (simp flip: power_int_add)

lemma rnd_lower:
  assumes "0 < x"
  shows "2 powi (expo x) \<le> rnd x"
proof -
  let ?q = "(2::real) powi (expo x - 52)"
  have q: "0 < ?q" by (simp add: zero_less_power_int)
  have s: "(2::real) powi (expo x) = 2 ^ 52 * ?q"
    using powi_split[of "expo x" "expo x - 52"] by simp
  have "2 powi (expo x) \<le> x" using expo_bounds[OF assms] by simp
  then have "2 ^ 52 * ?q \<le> x" using s by simp
  then have "2 ^ 52 \<le> x / ?q" using q by (simp add: field_simps)
  then have "of_int (2 ^ 52) \<le> x / ?q" by simp
  then have "round_half_even (of_int (2 ^ 52)) \<le> round_half_even (x / ?q)"
    by (rule round_half_even_mono)
  then have "(2::int) ^ 52 \<le> round_half_even (x / ?q)"
    by (simp only: round_half_even_of_int)
  then have "(2::real) ^ 52 \<le> of_int (round_half_even (x / ?q))"
    by (metis of_int_le_iff of_int_numeral of_int_power)
  then have "2 ^ 52 * ?q \<le> of_int (round_half_even (x / ?q)) * ?q"
    using q by (simp add: mult_right_mono)
  then show ?thesis unfolding rnd_pos_def[OF assms] s .
qed

lemma rnd_upper:
  assumes "0 < x"
  shows "rnd x \<le> 2 powi (expo x + 1)"
proof -
  let ?q = "(2::real) powi (expo x - 52)"
  have q: "0 < ?q" by (simp add: zero_less_power_int)
  have s: "(2::real) powi (expo x + 1) = 2 ^ 53 * ?q"
    using powi_split[of "expo x + 1" "expo x - 52"] by simp
  have "x < 2 powi (expo x + 1)" using expo_bounds[OF assms] by simp
  then have "x \<le> 2 ^ 53 * ?q" using s by simp
  then have "x / ?q \<le> 2 ^ 53" using q by (simp add: field_simps)
  then have "x / ?q \<le> of_int (2 ^ 53)" by simp
  then have "round_half_even (x / ?q) \<le> round_half_even (of_int (2 ^ 53))"
    by (rule round_half_even_mono)
  then have "round_half_even (x / ?q) \<le> (2::int) ^ 53"
    by (simp only: round_half_even_of_int)
  then have "of_int (round_half_even (x / ?q)) \<le> (2::real) ^ 53"
    by (metis of_int_le_iff of_int_numeral of_int_power)
  then have "of_int (round_half_even (x / ?q)) * ?q \<le> 2 ^ 53 * ?q"
    using q by (simp add: mult_right_mono)
  then show ?thesis unfolding rnd_pos_def[OF assms] s .
qed

lemma rnd_pos:
  assumes "0 < x"
  shows "0 < rnd x"
proof -
  have "(0::real) < 2 powi (expo x)" by (rule zero_less_power_int) simp
  then show ?thesis using rnd_lower[OF assms] by linarith
qed

lemma rnd_zero: "rnd 0 = 0"
  by (simp add: rnd_def)

lemma rnd_mono:
  assumes "0 \<le> x" and "x \<le> y"
  shows "rnd x \<le> rnd y"
proof (cases "x = 0")
  case True
  show ?thesis
  proof (cases "y = 0")
    case True
    then show ?thesis using \<open>x = 0\<close> by simp
  next
    case False
    then have "0 < y" using assms True by simp
    then show ?thesis using rnd_pos[of y] True by (simp add: rnd_zero)
  qed
next
  case False
  then have x: "0 < x" using assms by simp
  then have y: "0 < y" using assms by simp
  have le: "expo x \<le> expo y" using expo_mono[OF x assms(2)] .
  show ?thesis
  proof (cases "expo x = expo y")
    case True
    let ?q = "(2::real) powi (expo y - 52)"
    have q: "0 < ?q" by (simp add: zero_less_power_int)
    have "x / ?q \<le> y / ?q" using assms(2) q by (simp add: divide_right_mono)
    then have "round_half_even (x / ?q) \<le> round_half_even (y / ?q)"
      by (rule round_half_even_mono)
    then have "of_int (round_half_even (x / ?q)) * ?q \<le> of_int (round_half_even (y / ?q)) * ?q"
      using q by (simp add: mult_right_mono)
    then show ?thesis unfolding rnd_pos_def[OF x] rnd_pos_def[OF y] True .
  next
    case False
    then have "expo x + 1 \<le> expo y" using le by simp
    then have "(2::real) powi (expo x + 1) \<le> 2 powi (expo y)"
      by (rule power_int_increasing) simp
    then show ?thesis using rnd_upper[OF x] rnd_lower[OF y] by linarith
  qed
qed

lemma rnd_err:
  assumes "0 < x"
  shows "\<bar>rnd x - x\<bar> \<le> x / 2 ^ 53"
proof -
  let ?q = "(2::real) powi (expo x - 52)"
  let ?n = "of_int (round_half_even (x / ?q)) :: real"
  have q: "0 < ?q" by (simp add: zero_less_power_int)
  have s: "(2::real) powi (expo x) = 2 ^ 52 * ?q"
    using powi_split[of "expo x" "expo x - 52"] by simp
  have lo: "2 ^ 52 * ?q \<le> x" using expo_bounds[OF assms] s by simp
  have "\<bar>?n - x / ?q\<bar> \<le> 1 / 2" by (rule round_half_even_err)
  then have "\<bar>?n - x / ?q\<bar> * ?q \<le> 1 / 2 * ?q"
    using q by (simp add: mult_right_mono)
  moreover have "\<bar>?n - x / ?q\<bar> * ?q = \<bar>?n * ?q - x\<bar>"
  proof -
    have "\<bar>?n - x / ?q\<bar> * ?q = \<bar>(?n - x / ?q) * ?q\<bar>"
      using q by (simp add: abs_mult)
    also have "(?n - x / ?q) * ?q = ?n * ?q - x"
      using q by (simp add: field_simps)
    finally show ?thesis .
  qed
  ultimately have "\<bar>?n * ?q - x\<bar> \<le> 1 / 2 * ?q" by simp
  moreover have "1 / 2 * ?q \<le> x / 2 ^ 53" using lo by simp
  ultimately show ?thesis unfolding rnd_pos_def[OF assms] by linarith
qed

lemma rnd_powi: "rnd (2 powi k) = 2 powi k"
proof -
  have p: "(0::real) < 2 powi k" by (simp add: zero_less_power_int)
  have "(2::real) powi k < 2 powi (k + 1)"
    by (rule power_int_strict_increasing) simp_all
  then have e: "expo (2 powi k) = k" using p by (intro expo_eqI) simp_all
  have "(2::real) powi k = 2 ^ 52 * 2 powi (k - 52)"
    using powi_split[of k "k - 52"] by simp
  moreover have q: "(0::real) < 2 powi (k - 52)" by (simp add: zero_less_power_int)
  ultimately have d: "(2::real) powi k / 2 powi (k - 52) = of_int (2 ^ 52)"
    by (simp add: field_simps)
  show ?thesis
    unfolding rnd_pos_def[OF p] e d round_half_even_of_int
    using powi_split[of k "k - 52"] by simp
qed

lemma rnd_of_int:
  assumes "0 \<le> n" and "n < 2 ^ 53"
  shows "rnd (of_int n) = of_int n"
proof (cases "n = 0")
  case True
  then show ?thesis by (simp add: rnd_zero)
next
  case False
  then have p: "(0::real) < of_int n" using assms by simp
  let ?e = "expo (of_int n)"
  have "2 powi ?e \<le> real_of_int n" using expo_bounds[OF p] by simp
  moreover have "real_of_int n < 2 ^ 53"
    using assms(2) by (metis of_int_less_iff of_int_numeral of_int_power)
  ultimately have "(2::real) powi ?e < 2 powi 53" by simp
  then have e: "?e < 53"
    by (metis power_int_le_imp_less_exp one_less_numeral_iff semiring_norm(76) zero_le_numeral)
  define k where "k = nat (52 - ?e)"
  have k: "52 - ?e = int k" using e by (simp add: k_def)
  have q: "(2::real) powi (?e - 52) = 1 / 2 ^ k"
  proof -
    have "?e - 52 = - int k" using k by simp
    then have "(2::real) powi (?e - 52) = inverse (2 powi int k)"
      by (simp only: power_int_minus)
    then show ?thesis by (simp add: inverse_eq_divide)
  qed
  have d: "real_of_int n / (1 / 2 ^ k) = of_int (n * 2 ^ k)" by simp
  show ?thesis
    unfolding rnd_pos_def[OF p] q d round_half_even_of_int by simp
qed

text \<open>The value of \<open>rnd\<close> at a given number, from its exponent and the rounded
  significand.\<close>

lemma rnd_eqI:
  assumes "0 < x" and "2 powi e \<le> x" and "x < 2 powi (e + 1)"
    and "round_half_even (x / 2 powi (e - 52)) = n"
  shows "rnd x = of_int n * 2 powi (e - 52)"
  using assms expo_eqI[OF assms(1-3)] by (simp add: rnd_pos_def)

text \<open>One rounding changes a value by at most \<open>2^(-53)\<close> of it; a value that is off by
  \<open>k\<close> times that much is off by at most \<open>k + 2\<close> times that much after it has been
  multiplied by a constant and rounded.\<close>

lemma rnd_nonneg:
  assumes "0 \<le> x"
  shows "0 \<le> rnd x"
  using rnd_mono[of 0 x] assms by (simp add: rnd_zero)

lemma rnd_rel:
  assumes "0 \<le> x"
  shows "\<bar>rnd x - x\<bar> \<le> x * (1 / 2 ^ 53)"
proof (cases "x = 0")
  case True
  then show ?thesis by (simp add: rnd_zero)
next
  case False
  then have "0 < x" using assms by simp
  then show ?thesis using rnd_err[of x] by simp
qed

lemma rnd_step:
  assumes x: "0 \<le> x" and a: "0 \<le> a" and c: "0 \<le> c"
    and ax: "\<bar>a - x\<bar> \<le> x * (k / 2 ^ 53)" and k0: "0 \<le> k" and k1: "k \<le> 2 ^ 53"
  shows "\<bar>rnd (a * c) - x * c\<bar> \<le> x * c * ((k + 2) / 2 ^ 53)"
proof -
  have k53: "k / 2 ^ 53 \<le> (1::real)" using k1 by simp
  have "x * (k / 2 ^ 53) \<le> x * 1" by (rule mult_left_mono[OF k53 x])
  then have a2: "a \<le> 2 * x" using ax by linarith
  have ac: "0 \<le> a * c" using a c by simp
  have "a * c \<le> 2 * x * c" by (rule mult_right_mono[OF a2 c])
  then have "a * c * (1 / 2 ^ 53) \<le> 2 * x * c * (1 / 2 ^ 53)"
    by (rule mult_right_mono) simp
  then have e1: "\<bar>rnd (a * c) - a * c\<bar> \<le> 2 * x * c * (1 / 2 ^ 53)"
    using rnd_rel[OF ac] by linarith
  have "\<bar>a * c - x * c\<bar> = \<bar>a - x\<bar> * c"
    using c by (simp add: abs_mult flip: left_diff_distrib)
  also have "\<dots> \<le> x * (k / 2 ^ 53) * c" by (rule mult_right_mono[OF ax c])
  finally have e2: "\<bar>a * c - x * c\<bar> \<le> x * (k / 2 ^ 53) * c" .
  have "x * c * ((k + 2) / 2 ^ 53) = 2 * x * c * (1 / 2 ^ 53) + x * (k / 2 ^ 53) * c"
    by (simp add: field_simps)
  then show ?thesis using e1 e2 by linarith
qed

subsection \<open>The tick position in double precision\<close>

lemma float_of_int_exact:
  assumes "0 \<le> n" and "n < 2 ^ 53"
  shows "float_of_int n = of_int n"
  using rnd_of_int[OF assms] by (simp add: float_of_int_def)

lemma midi_time_double_value:
  assumes "fps \<noteq> 0" and "0 < tempo" and "tempo < 2 ^ 53" and "0 \<le> tpb" and "tpb < 2 ^ 53"
  shows "midi_time_double frame fps tempo tpb =
           Inr (rnd (rnd (rnd (rnd (real_of_int frame / real_of_int fps) * 1000000)
                            / real_of_int tempo) * real_of_int tpb))"
proof -
  have t: "float_of_int tempo = of_int tempo"
    using float_of_int_exact[of tempo] assms by simp
  have b: "float_of_int tpb = of_int tpb"
    using float_of_int_exact[of tpb] assms by simp
  have m: "float_of_int 1000000 = 1000000"
    using float_of_int_exact[of 1000000] by simp
  show ?thesis
    using assms(1,2)
    by (simp add: midi_time_double_def int_truediv_def float_truediv_def float_mul_def t b m)
qed

lemma midi_time_double_mono:
  assumes "0 \<le> frame" and "frame \<le> frame'" and "0 < fps" and "0 < tempo" and "0 < tpb"
  shows "rnd (rnd (rnd (rnd (real_of_int frame / real_of_int fps) * 1000000)
                    / real_of_int tempo) * real_of_int tpb)
       \<le> rnd (rnd (rnd (rnd (real_of_int frame' / real_of_int fps) * 1000000)
                    / real_of_int tempo) * real_of_int tpb)"
proof -
  let ?x = "real_of_int frame / real_of_int fps"
  let ?y = "real_of_int frame' / real_of_int fps"
  have pos: "0 < real_of_int fps" "0 < real_of_int tempo" "0 < real_of_int tpb"
    using assms by simp_all
  have x0: "0 \<le> ?x" using assms(1) pos(1) by simp
  have xy: "?x \<le> ?y" using assms(2) pos(1) by (simp add: divide_right_mono)
  have s0: "0 \<le> rnd ?x" by (rule rnd_nonneg[OF x0])
  have s: "rnd ?x \<le> rnd ?y" by (rule rnd_mono[OF x0 xy])
  have m0: "0 \<le> rnd ?x * 1000000" using s0 by simp
  have m1: "rnd ?x * 1000000 \<le> rnd ?y * 1000000" using s by simp
  have n0: "0 \<le> rnd (rnd ?x * 1000000)" by (rule rnd_nonneg[OF m0])
  have n1: "rnd (rnd ?x * 1000000) \<le> rnd (rnd ?y * 1000000)" by (rule rnd_mono[OF m0 m1])
  have d0: "0 \<le> rnd (rnd ?x * 1000000) / real_of_int tempo" using n0 pos(2) by simp
  have d1: "rnd (rnd ?x * 1000000) / real_of_int tempo
      \<le> rnd (rnd ?y * 1000000) / real_of_int tempo"
    using n1 pos(2) by (simp add: divide_right_mono)
  have b0: "0 \<le> rnd (rnd (rnd ?x * 1000000) / real_of_int tempo)" by (rule rnd_nonneg[OF d0])
  have b1: "rnd (rnd (rnd ?x * 1000000) / real_of_int tempo)
      \<le> rnd (rnd (rnd ?y * 1000000) / real_of_int tempo)" by (rule rnd_mono[OF d0 d1])
  have r0: "0 \<le> rnd (rnd (rnd ?x * 1000000) / real_of_int tempo) * real_of_int tpb"
    using b0 pos(3) by simp
  have r1: "rnd (rnd (rnd ?x * 1000000) / real_of_int tempo) * real_of_int tpb
      \<le> rnd (rnd (rnd ?y * 1000000) / real_of_int tempo) * real_of_int tpb"
    using b1 pos(3) by (simp add: mult_right_mono)
  show ?thesis by (rule rnd_mono[OF r0 r1])
qed

lemma midi_time_double_error:
  assumes "0 \<le> frame" and "0 < fps" and "0 < tempo" and "0 < tpb"
  shows "\<bar>rnd (rnd (rnd (rnd (real_of_int frame / real_of_int fps) * 1000000)
                    / real_of_int tempo) * real_of_int tpb)
          - real_of_int frame / real_of_int fps * 1000000 / real_of_int tempo * real_of_int tpb\<bar>
       \<le> real_of_int frame / real_of_int fps * 1000000 / real_of_int tempo * real_of_int tpb
            / 2 ^ 50"
proof -
  let ?x = "real_of_int frame / real_of_int fps"
  let ?c = "1 / real_of_int tempo"
  let ?b = "real_of_int tpb"
  have pos: "0 < real_of_int fps" "0 < real_of_int tempo" "0 < real_of_int tpb"
    using assms by simp_all
  have x0: "0 \<le> ?x" using assms(1) pos(1) by simp
  have c0: "0 \<le> ?c" using pos(2) by simp
  have b0: "0 \<le> ?b" using pos(3) by simp
  have s0: "0 \<le> rnd ?x" by (rule rnd_nonneg[OF x0])
  have s1: "\<bar>rnd ?x - ?x\<bar> \<le> ?x * (1 / 2 ^ 53)" by (rule rnd_rel[OF x0])
  have m0: "0 \<le> rnd (rnd ?x * 1000000)" using s0 by (intro rnd_nonneg) simp
  have m1: "\<bar>rnd (rnd ?x * 1000000) - ?x * 1000000\<bar> \<le> ?x * 1000000 * ((1 + 2) / 2 ^ 53)"
    by (rule rnd_step[OF x0 s0 _ s1]) simp_all
  have x1: "0 \<le> ?x * 1000000" by (rule mult_nonneg_nonneg[OF x0]) simp
  have d0: "0 \<le> rnd (rnd (rnd ?x * 1000000) * ?c)" using m0 c0 by (intro rnd_nonneg) simp
  have d1: "\<bar>rnd (rnd (rnd ?x * 1000000) * ?c) - ?x * 1000000 * ?c\<bar>
      \<le> ?x * 1000000 * ?c * ((3 + 2) / 2 ^ 53)"
    by (rule rnd_step[OF x1 m0 c0]) (use m1 in simp_all)
  have x2: "0 \<le> ?x * 1000000 * ?c" by (rule mult_nonneg_nonneg[OF x1 c0])
  have r1: "\<bar>rnd (rnd (rnd (rnd ?x * 1000000) * ?c) * ?b) - ?x * 1000000 * ?c * ?b\<bar>
      \<le> ?x * 1000000 * ?c * ?b * ((5 + 2) / 2 ^ 53)"
    by (rule rnd_step[OF x2 d0 b0]) (use d1 in simp_all)
  have x3: "0 \<le> ?x * 1000000 * ?c * ?b" by (rule mult_nonneg_nonneg[OF x2 b0])
  have "?x * 1000000 * ?c * ?b * ((5 + 2) / 2 ^ 53) \<le> ?x * 1000000 * ?c * ?b * (1 / 2 ^ 50)"
    by (rule mult_left_mono[OF _ x3]) simp
  then have "\<bar>rnd (rnd (rnd (rnd ?x * 1000000) * ?c) * ?b) - ?x * 1000000 * ?c * ?b\<bar>
      \<le> ?x * 1000000 * ?c * ?b * (1 / 2 ^ 50)"
    using r1 by linarith
  then show ?thesis by simp
qed

text \<open>For a frame above 0 and inputs below \<open>2^53\<close> the four results of lines 231-232
  lie between \<open>2^(-106)\<close> and \<open>2^126\<close>, inside the range of the normal doubles; at
  frame 0 all four are 0.\<close>

lemma rnd_power: "rnd (2 ^ n) = 2 ^ n"
  using rnd_powi[of "int n"] by simp

lemma rnd_inverse_power: "rnd (1 / 2 ^ n) = 1 / 2 ^ n"
proof -
  have "(2::real) powi (- int n) = 1 / 2 ^ n"
    by (simp add: power_int_minus inverse_eq_divide)
  then show ?thesis using rnd_powi[of "- int n"] by simp
qed

lemma rnd_between:
  assumes "1 / 2 ^ j \<le> x" and "x \<le> 2 ^ k"
  shows "1 / 2 ^ j \<le> rnd x \<and> rnd x \<le> 2 ^ k"
proof -
  have j0: "(0::real) \<le> 1 / 2 ^ j" by simp
  then have x0: "0 \<le> x" using assms(1) by linarith
  have "rnd (1 / 2 ^ j) \<le> rnd x" by (rule rnd_mono[OF j0 assms(1)])
  moreover have "rnd x \<le> rnd (2 ^ k)" by (rule rnd_mono[OF x0 assms(2)])
  ultimately show ?thesis by (simp only: rnd_power rnd_inverse_power)
qed

lemma midi_time_double_normal:
  assumes "0 < frame" and "frame < 2 ^ 53" and "0 < fps" and "fps < 2 ^ 53"
    and "0 < tempo" and "tempo < 2 ^ 53" and "0 < tpb" and "tpb < 2 ^ 53"
    and s: "s = rnd (real_of_int frame / real_of_int fps)"
    and m: "m = rnd (s * 1000000)"
    and d: "d = rnd (m / real_of_int tempo)"
    and r: "r = rnd (d * real_of_int tpb)"
  shows "(1 / 2 ^ 53 \<le> s \<and> s \<le> 2 ^ 53) \<and> (1 / 2 ^ 53 \<le> m \<and> m \<le> 2 ^ 73) \<and>
         (1 / 2 ^ 106 \<le> d \<and> d \<le> 2 ^ 73) \<and> (1 / 2 ^ 106 \<le> r \<and> r \<le> 2 ^ 126)"
proof -
  have up: "real_of_int frame \<le> 2 ^ 53" "real_of_int fps \<le> 2 ^ 53"
    "real_of_int tempo \<le> 2 ^ 53" "real_of_int tpb \<le> 2 ^ 53"
    using assms(2,4,6,8) by (metis less_imp_le of_int_le_iff of_int_numeral of_int_power)+
  have lo: "1 \<le> real_of_int frame" "1 \<le> real_of_int fps"
    "1 \<le> real_of_int tempo" "1 \<le> real_of_int tpb"
    using assms(1,3,5,7) by simp_all
  have x1: "1 / 2 ^ 53 \<le> real_of_int frame / real_of_int fps"
  proof -
    have "1 / 2 ^ 53 \<le> 1 / real_of_int fps" using up(2) lo(2) by (simp add: field_simps)
    also have "\<dots> \<le> real_of_int frame / real_of_int fps"
      using lo(1) lo(2) by (simp add: divide_right_mono)
    finally show ?thesis .
  qed
  have x2: "real_of_int frame / real_of_int fps \<le> 2 ^ 53"
  proof -
    have "real_of_int frame / real_of_int fps \<le> real_of_int frame / 1"
      using lo(1) lo(2) by (intro divide_left_mono) simp_all
    then show ?thesis using up(1) by simp
  qed
  have bs: "1 / 2 ^ 53 \<le> s \<and> s \<le> 2 ^ 53" unfolding s by (rule rnd_between[OF x1 x2])
  have s0: "0 \<le> s" using bs by (meson dual_order.trans zero_le_divide_1_iff zero_le_numeral zero_le_power)
  have y1: "1 / 2 ^ 53 \<le> s * 1000000"
  proof -
    have "s * 1 \<le> s * 1000000" by (rule mult_left_mono[OF _ s0]) simp
    then have "s \<le> s * 1000000" by (simp only: mult_1_right)
    moreover have "1 / 2 ^ 53 \<le> s" using bs by (rule conjunct1)
    ultimately show ?thesis by (rule order_trans[rotated])
  qed
  have "s * 1000000 \<le> 2 ^ 53 * 2 ^ 20"
    by (rule mult_mono) (use bs in simp_all)
  then have y2: "s * 1000000 \<le> 2 ^ 73" by simp
  have bm: "1 / 2 ^ 53 \<le> m \<and> m \<le> 2 ^ 73" unfolding m by (rule rnd_between[OF y1 y2])
  have m0: "0 \<le> m" using bm by (meson dual_order.trans zero_le_divide_1_iff zero_le_numeral zero_le_power)
  have z1: "1 / 2 ^ 106 \<le> m / real_of_int tempo"
  proof -
    have "(1 / 2 ^ 53) / 2 ^ 53 \<le> m / 2 ^ 53"
      using bm by (intro divide_right_mono) simp_all
    also have "\<dots> \<le> m / real_of_int tempo"
      using up(3) lo(3) m0 by (intro divide_left_mono) simp_all
    finally show ?thesis by simp
  qed
  have z2: "m / real_of_int tempo \<le> 2 ^ 73"
  proof -
    have "m / real_of_int tempo \<le> m / 1"
      using lo(3) m0 by (intro divide_left_mono) simp_all
    then show ?thesis using bm by simp
  qed
  have bd: "1 / 2 ^ 106 \<le> d \<and> d \<le> 2 ^ 73" unfolding d by (rule rnd_between[OF z1 z2])
  have d0: "0 \<le> d" using bd by (meson dual_order.trans zero_le_divide_1_iff zero_le_numeral zero_le_power)
  have w1: "1 / 2 ^ 106 \<le> d * real_of_int tpb"
  proof -
    have "d * 1 \<le> d * real_of_int tpb" by (rule mult_left_mono[OF lo(4) d0])
    then have "d \<le> d * real_of_int tpb" by (simp only: mult_1_right)
    moreover have "1 / 2 ^ 106 \<le> d" using bd by (rule conjunct1)
    ultimately show ?thesis by (rule order_trans[rotated])
  qed
  have "d * real_of_int tpb \<le> 2 ^ 73 * 2 ^ 53"
    by (rule mult_mono) (use bd up(4) d0 lo(4) in simp_all)
  then have w2: "d * real_of_int tpb \<le> 2 ^ 126" by simp
  have br: "1 / 2 ^ 106 \<le> r \<and> r \<le> 2 ^ 126" unfolding r by (rule rnd_between[OF w1 w2])
  show ?thesis using bs bm bd br by blast
qed

text \<open>The tick position at some inputs, each rounding evaluated.\<close>

lemma ticks_25_3: "midi_time_double 25 3 500000 480 = Inr (8000 + 1 / 2 ^ 40)"
proof -
  have s: "rnd (real_of_int 25 / real_of_int 3) = 4691249611844267 / 2 ^ 49"
    using rnd_eqI[of "25 / 3" 3 4691249611844267]
    by (simp add: round_half_even_def Let_def)
  have m: "rnd (4691249611844267 / 2 ^ 49 * 1000000) = 4473924266666667 / 2 ^ 29"
    using rnd_eqI[of "4691249611844267 / 2 ^ 49 * 1000000" 22 8947848533333334]
    by (simp add: round_half_even_def Let_def)
  have d: "rnd (4473924266666667 / 2 ^ 29 / real_of_int 500000) = 4691249611844267 / 2 ^ 48"
    using rnd_eqI[of "4473924266666667 / 2 ^ 29 / 500000" 4 4691249611844267]
    by (simp add: round_half_even_def Let_def)
  have r: "rnd (4691249611844267 / 2 ^ 48 * real_of_int 480) = 8000 + 1 / 2 ^ 40"
    using rnd_eqI[of "4691249611844267 / 2 ^ 48 * 480" 12 8796093022208001]
    by (simp add: round_half_even_def Let_def)
  have "midi_time_double 25 3 500000 480 =
      Inr (rnd (rnd (rnd (rnd (real_of_int 25 / real_of_int 3) * 1000000)
                      / real_of_int 500000) * real_of_int 480))"
    by (rule midi_time_double_value) simp_all
  then show ?thesis unfolding s m d r .
qed

lemma ticks_50_3: "midi_time_double 50 3 500000 480 = Inr (16000 + 1 / 2 ^ 39)"
proof -
  have s: "rnd (real_of_int 50 / real_of_int 3) = 4691249611844267 / 2 ^ 48"
    using rnd_eqI[of "50 / 3" 4 4691249611844267]
    by (simp add: round_half_even_def Let_def)
  have m: "rnd (4691249611844267 / 2 ^ 48 * 1000000) = 4473924266666667 / 2 ^ 28"
    using rnd_eqI[of "4691249611844267 / 2 ^ 48 * 1000000" 23 8947848533333334]
    by (simp add: round_half_even_def Let_def)
  have d: "rnd (4473924266666667 / 2 ^ 28 / real_of_int 500000) = 4691249611844267 / 2 ^ 47"
    using rnd_eqI[of "4473924266666667 / 2 ^ 28 / 500000" 5 4691249611844267]
    by (simp add: round_half_even_def Let_def)
  have r: "rnd (4691249611844267 / 2 ^ 47 * real_of_int 480) = 16000 + 1 / 2 ^ 39"
    using rnd_eqI[of "4691249611844267 / 2 ^ 47 * 480" 13 8796093022208001]
    by (simp add: round_half_even_def Let_def)
  have "midi_time_double 50 3 500000 480 =
      Inr (rnd (rnd (rnd (rnd (real_of_int 50 / real_of_int 3) * 1000000)
                      / real_of_int 500000) * real_of_int 480))"
    by (rule midi_time_double_value) simp_all
  then show ?thesis unfolding s m d r .
qed

lemma ticks_25_1: "midi_time_double 25 1 500000 480 = Inr 24000"
proof -
  have s: "rnd (real_of_int 25 / real_of_int 1) = 25"
    using rnd_of_int[of 25] by simp
  have m: "rnd (25 * 1000000) = 25000000"
    using rnd_of_int[of 25000000] by simp
  have d: "rnd (25000000 / real_of_int 500000) = 50"
    using rnd_of_int[of 50] by simp
  have r: "rnd (50 * real_of_int 480) = 24000"
    using rnd_of_int[of 24000] by simp
  have "midi_time_double 25 1 500000 480 =
      Inr (rnd (rnd (rnd (rnd (real_of_int 25 / real_of_int 1) * 1000000)
                      / real_of_int 500000) * real_of_int 480))"
    by (rule midi_time_double_value) simp_all
  then show ?thesis unfolding s m d r .
qed

lemma ticks_123_30: "midi_time_double 123 30 500000 480 = Inr (3936 - 1 / 2 ^ 41)"
proof -
  have s: "rnd (real_of_int 123 / real_of_int 30) = 2308094809027379 / 2 ^ 49"
    using rnd_eqI[of "123 / 30" 2 4616189618054758]
    by (simp add: round_half_even_def Let_def)
  have m: "rnd (2308094809027379 / 2 ^ 49 * 1000000) = 8804682956799999 / 2 ^ 31"
    using rnd_eqI[of "2308094809027379 / 2 ^ 49 * 1000000" 21 8804682956799999]
    by (simp add: round_half_even_def Let_def)
  have d: "rnd (8804682956799999 / 2 ^ 31 / real_of_int 500000) = 2308094809027379 / 2 ^ 48"
    using rnd_eqI[of "8804682956799999 / 2 ^ 31 / 500000" 3 4616189618054758]
    by (simp add: round_half_even_def Let_def)
  have r: "rnd (2308094809027379 / 2 ^ 48 * real_of_int 480) = 3936 - 1 / 2 ^ 41"
    using rnd_eqI[of "2308094809027379 / 2 ^ 48 * 480" 11 8655355533852671]
    by (simp add: round_half_even_def Let_def)
  have "midi_time_double 123 30 500000 480 =
      Inr (rnd (rnd (rnd (rnd (real_of_int 123 / real_of_int 30) * 1000000)
                      / real_of_int 500000) * real_of_int 480))"
    by (rule midi_time_double_value) simp_all
  then show ?thesis unfolding s m d r .
qed

text \<open>At frame 60, 30 frames per second, no operation rounds: the result is the exact
  tick position 1920.\<close>

lemma ticks_60_30: "midi_time_double 60 30 500000 480 = Inr 1920"
proof -
  have s: "rnd (real_of_int 60 / real_of_int 30) = 2"
    using rnd_of_int[of 2] by simp
  have m: "rnd (2 * 1000000) = 2000000"
    using rnd_of_int[of 2000000] by simp
  have d: "rnd (2000000 / real_of_int 500000) = 4"
    using rnd_of_int[of 4] by simp
  have r: "rnd (4 * real_of_int 480) = 1920"
    using rnd_of_int[of 1920] by simp
  have "midi_time_double 60 30 500000 480 =
      Inr (rnd (rnd (rnd (rnd (real_of_int 60 / real_of_int 30) * 1000000)
                      / real_of_int 500000) * real_of_int 480))"
    by (rule midi_time_double_value) simp_all
  then show ?thesis unfolding s m d r .
qed

lemma scale_abs:
  fixes p u X :: real
  assumes "0 < p" and "\<bar>u - X\<bar> \<le> X / 2 ^ 50"
  shows "\<bar>1 / p * u - 1 / p * X\<bar> \<le> 1 / p * X / 2 ^ 50"
proof -
  have "\<bar>1 / p * u - 1 / p * X\<bar> = \<bar>1 / p * (u - X)\<bar>"
    by (simp only: right_diff_distrib)
  also have "\<dots> = 1 / p * \<bar>u - X\<bar>" using assms(1) by (simp add: abs_mult)
  also have "\<dots> \<le> 1 / p * (X / 2 ^ 50)"
    by (rule mult_left_mono[OF assms(2)]) (use assms(1) in simp)
  finally show ?thesis by simp
qed

lemma approx_combine:
  fixes a v x :: real
  assumes "\<bar>a - x\<bar> \<le> x / 2 ^ 50" and "\<bar>v - x\<bar> \<le> x / 2 ^ 50"
  shows "\<bar>a - v\<bar> \<le> x / 2 ^ 49"
proof -
  have "x / 2 ^ 49 = x / 2 ^ 50 + x / 2 ^ 50" by simp
  then show ?thesis using assms by linarith
qed

text \<open>
  C8, as the code has it. For a frame from 0 on and positive \<open>fps\<close>, \<open>tempo\<close> and
  \<open>ticks_per_beat\<close>, all below \<open>2^53\<close>, no division raises and the tick position is
  \<open>frame / fps * 1000000 / tempo * ticks_per_beat\<close> with each of the four operations
  rounded to the nearest double. It does not decrease when the frame grows. It differs
  from the exact value of the formula by at most \<open>2^(-50)\<close> of that value, and from \<open>1/fps\<close>
  times the tick position at one frame per second by at most \<open>2^(-49)\<close> of it.
\<close>

theorem frame_to_ticks_rounded:
  assumes "0 \<le> frame" and "frame \<le> frame'" and "frame' < 2 ^ 53"
    and "0 < fps" and "fps < 2 ^ 53" and "0 < tempo" and "tempo < 2 ^ 53"
    and "0 < tpb" and "tpb < 2 ^ 53"
  shows "midi_time_double frame fps tempo tpb =
           Inr (rnd (rnd (rnd (rnd (real_of_int frame / real_of_int fps) * 1000000)
                           / real_of_int tempo) * real_of_int tpb)) \<and>
         (\<exists>a b. midi_time_double frame fps tempo tpb = Inr a \<and>
                midi_time_double frame' fps tempo tpb = Inr b \<and> a \<le> b) \<and>
         (\<exists>a x. midi_time_double frame fps tempo tpb = Inr a \<and>
                midi_time_of frame fps tempo tpb = Inr x \<and>
                x = real_of_int frame / real_of_int fps * 1000000 / real_of_int tempo
                      * real_of_int tpb \<and>
                \<bar>a - x\<bar> \<le> x / 2 ^ 50) \<and>
         (\<exists>a u x. midi_time_double frame fps tempo tpb = Inr a \<and>
                midi_time_double frame 1 tempo tpb = Inr u \<and>
                midi_time_of frame fps tempo tpb = Inr x \<and>
                \<bar>a - 1 / real_of_int fps * u\<bar> \<le> x / 2 ^ 49)"
proof -
  let ?a = "rnd (rnd (rnd (rnd (real_of_int frame / real_of_int fps) * 1000000)
                       / real_of_int tempo) * real_of_int tpb)"
  let ?b = "rnd (rnd (rnd (rnd (real_of_int frame' / real_of_int fps) * 1000000)
                       / real_of_int tempo) * real_of_int tpb)"
  let ?u = "rnd (rnd (rnd (rnd (real_of_int frame / real_of_int 1) * 1000000)
                       / real_of_int tempo) * real_of_int tpb)"
  let ?x = "real_of_int frame / real_of_int fps * 1000000 / real_of_int tempo * real_of_int tpb"
  let ?X = "real_of_int frame / real_of_int 1 * 1000000 / real_of_int tempo * real_of_int tpb"
  have nz: "fps \<noteq> 0" "tempo \<noteq> 0" "(1::int) \<noteq> 0" and tpb0: "0 \<le> tpb"
    using assms by simp_all
  have p: "0 < real_of_int fps" using assms(4) by simp
  have va: "midi_time_double frame fps tempo tpb = Inr ?a"
    by (rule midi_time_double_value[OF nz(1) assms(6,7) tpb0 assms(9)])
  have vb: "midi_time_double frame' fps tempo tpb = Inr ?b"
    by (rule midi_time_double_value[OF nz(1) assms(6,7) tpb0 assms(9)])
  have vu: "midi_time_double frame 1 tempo tpb = Inr ?u"
    by (rule midi_time_double_value[OF nz(3) assms(6,7) tpb0 assms(9)])
  have vx: "midi_time_of frame fps tempo tpb = Inr ?x"
    using nz by (simp add: midi_time_of_def)
  have ab: "?a \<le> ?b"
    by (rule midi_time_double_mono[OF assms(1,2,4,6,8)])
  have ea: "\<bar>?a - ?x\<bar> \<le> ?x / 2 ^ 50"
    by (rule midi_time_double_error[OF assms(1,4,6,8)])
  have eu: "\<bar>?u - ?X\<bar> \<le> ?X / 2 ^ 50"
    by (rule midi_time_double_error[OF assms(1) _ assms(6,8)]) simp
  have xX: "?x = 1 / real_of_int fps * ?X" by simp
  have eu': "\<bar>1 / real_of_int fps * ?u - ?x\<bar> \<le> ?x / 2 ^ 50"
    using scale_abs[OF p eu] unfolding xX[symmetric] .
  have sc: "\<bar>?a - 1 / real_of_int fps * ?u\<bar> \<le> ?x / 2 ^ 49"
    by (rule approx_combine[OF ea eu'])
  show ?thesis using va vb vu vx ab ea sc by blast
qed

theorem frame_to_ticks_rounded_witness:
  "midi_time_double 25 3 500000 480 = Inr (8000 + 1 / 2 ^ 40) \<and>
   midi_time_double 50 3 500000 480 = Inr (16000 + 1 / 2 ^ 39) \<and>
   midi_time_double 25 1 500000 480 = Inr 24000 \<and>
   midi_time_of 25 3 500000 480 = Inr 8000 \<and>
   \<bar>(8000 + 1 / 2 ^ 40) - 1 / 3 * (24000::real)\<bar> \<le> 8000 / 2 ^ 49"
  using frame_to_ticks_rounded[of 25 50 3 500000 480] ticks_25_3 ticks_50_3 ticks_25_1
  by (simp add: midi_time_of_def)

text \<open>
  C8, as stated, fails. At frame 25, tempo 500000 and 480 ticks per beat the tick
  position is 24000 at one frame per second and \<open>8000 + 2^(-40)\<close> at three frames per
  second, which is not a third of 24000. At frame 123 and 30 frames per second the
  formula gives 3936 and the code \<open>3936 - 2^(-41)\<close>.
\<close>

theorem fps_scaling_not_exact:
  "midi_time_double 25 1 500000 480 = Inr 24000 \<and>
   midi_time_double 25 3 500000 480 = Inr (8000 + 1 / 2 ^ 40) \<and>
   (8000 + 1 / 2 ^ 40 :: real) \<noteq> 1 / 3 * 24000 \<and>
   midi_time_double 123 30 500000 480 = Inr (3936 - 1 / 2 ^ 41) \<and>
   midi_time_of 123 30 500000 480 = Inr 3936"
  using ticks_25_1 ticks_25_3 ticks_123_30 by (simp add: midi_time_of_def)

section \<open>Properties of the mixer object\<close>

subsection \<open>What one call does to the fields\<close>

lemma process_track_session:
  assumes "process_track args tracks tempo tpb i st = (st', err)"
  shows "ls_session st' = ls_session st \<or>
         (\<exists>x. i < length tracks \<and> i < length (track_states (ls_session st)) \<and>
              get_track_strength_at_frame (tracks ! i) (a_frame_number args) (a_fps args)
                (a_trigger_mode args) tpb tempo (a_decay_rate args) = Inr x \<and>
              ls_session st' = (ls_session st)
                \<lparr>track_states := (track_states (ls_session st))[i := x * a_mix_strength args]\<rparr>)"
proof (cases "i < length tracks")
  case False
  with assms show ?thesis by (simp add: process_track_def)
next
  case True
  show ?thesis
  proof (cases "get_track_strength_at_frame (tracks ! i) (a_frame_number args) (a_fps args)
                (a_trigger_mode args) tpb tempo (a_decay_rate args)")
    case (Inl e)
    with assms True show ?thesis by (simp add: process_track_def)
  next
    case (Inr x)
    show ?thesis
    proof (cases "i < length (track_states (ls_session st))")
      case False
      with assms True Inr show ?thesis by (simp add: process_track_def)
    next
      case len: True
      have "ls_session st' = (ls_session st)
           \<lparr>track_states := (track_states (ls_session st))[i := x * a_mix_strength args]\<rparr>"
        using assms True Inr len
        by (auto simp: process_track_def Let_def split: option.splits prod.splits sum.splits)
      then show ?thesis using True Inr len by simp
    qed
  qed
qed


lemma process_tracks_session:
  assumes "process_tracks args tracks tempo tpb is st = (st', err)"
  shows "midi_data (ls_session st') = midi_data (ls_session st) \<and>
         cached_midi_path (ls_session st') = cached_midi_path (ls_session st) \<and>
         current_frame (ls_session st') = current_frame (ls_session st) \<and>
         length (track_states (ls_session st')) = length (track_states (ls_session st)) \<and>
         (\<forall>j. track_states (ls_session st') ! j = track_states (ls_session st) ! j \<or>
              (\<exists>x. j \<in> set is \<and> j < length tracks \<and>
                   j < length (track_states (ls_session st)) \<and>
                   get_track_strength_at_frame (tracks ! j) (a_frame_number args)
                     (a_fps args) (a_trigger_mode args) tpb tempo (a_decay_rate args) = Inr x \<and>
                   track_states (ls_session st') ! j = x * a_mix_strength args))"
  using assms
proof (induction "is" arbitrary: st)
  case Nil
  then show ?case by simp
next
  case (Cons i "is")
  obtain st1 e1 where step: "process_track args tracks tempo tpb i st = (st1, e1)"
    by (cases "process_track args tracks tempo tpb i st")
  note one = process_track_session[OF step]
  have one_fields: "midi_data (ls_session st1) = midi_data (ls_session st) \<and>
         cached_midi_path (ls_session st1) = cached_midi_path (ls_session st) \<and>
         current_frame (ls_session st1) = current_frame (ls_session st) \<and>
         length (track_states (ls_session st1)) = length (track_states (ls_session st))"
    using one by auto
  have one_slots: "\<forall>j. track_states (ls_session st1) ! j = track_states (ls_session st) ! j \<or>
              (\<exists>x. j = i \<and> j < length tracks \<and>
                   j < length (track_states (ls_session st)) \<and>
                   get_track_strength_at_frame (tracks ! j) (a_frame_number args)
                     (a_fps args) (a_trigger_mode args) tpb tempo (a_decay_rate args) = Inr x \<and>
                   track_states (ls_session st1) ! j = x * a_mix_strength args)"
  proof
    fix j
    from one show "track_states (ls_session st1) ! j = track_states (ls_session st) ! j \<or>
              (\<exists>x. j = i \<and> j < length tracks \<and>
                   j < length (track_states (ls_session st)) \<and>
                   get_track_strength_at_frame (tracks ! j) (a_frame_number args)
                     (a_fps args) (a_trigger_mode args) tpb tempo (a_decay_rate args) = Inr x \<and>
                   track_states (ls_session st1) ! j = x * a_mix_strength args)"
    proof
      assume "ls_session st1 = ls_session st"
      then show ?thesis by simp
    next
      assume "\<exists>x. i < length tracks \<and> i < length (track_states (ls_session st)) \<and>
              get_track_strength_at_frame (tracks ! i) (a_frame_number args) (a_fps args)
                (a_trigger_mode args) tpb tempo (a_decay_rate args) = Inr x \<and>
              ls_session st1 = (ls_session st)
                \<lparr>track_states := (track_states (ls_session st))[i := x * a_mix_strength args]\<rparr>"
      then obtain x where x: "i < length tracks" "i < length (track_states (ls_session st))"
        "get_track_strength_at_frame (tracks ! i) (a_frame_number args) (a_fps args)
                (a_trigger_mode args) tpb tempo (a_decay_rate args) = Inr x"
        "ls_session st1 = (ls_session st)
                \<lparr>track_states := (track_states (ls_session st))[i := x * a_mix_strength args]\<rparr>"
        by blast
      show ?thesis
      proof (cases "j = i")
        case True
        with x show ?thesis by simp
      next
        case False
        with x(4) show ?thesis by simp
      qed
    qed
  qed
  show ?case
  proof (cases e1)
    case (Some x)
    with Cons.prems step have "st' = st1" by simp
    with one_fields one_slots show ?thesis by auto
  next
    case None
    with Cons.prems step have rest: "process_tracks args tracks tempo tpb is st1 = (st', err)"
      by simp
    note ih = Cons.IH[OF rest]
    have fields: "midi_data (ls_session st') = midi_data (ls_session st) \<and>
         cached_midi_path (ls_session st') = cached_midi_path (ls_session st) \<and>
         current_frame (ls_session st') = current_frame (ls_session st) \<and>
         length (track_states (ls_session st')) = length (track_states (ls_session st))"
      using ih one_fields by simp
    have slots: "\<forall>j. track_states (ls_session st') ! j = track_states (ls_session st) ! j \<or>
              (\<exists>x. j \<in> set (i # is) \<and> j < length tracks \<and>
                   j < length (track_states (ls_session st)) \<and>
                   get_track_strength_at_frame (tracks ! j) (a_frame_number args)
                     (a_fps args) (a_trigger_mode args) tpb tempo (a_decay_rate args) = Inr x \<and>
                   track_states (ls_session st') ! j = x * a_mix_strength args)"
    proof
      fix j
      from ih have "track_states (ls_session st') ! j = track_states (ls_session st1) ! j \<or>
              (\<exists>x. j \<in> set is \<and> j < length tracks \<and>
                   j < length (track_states (ls_session st1)) \<and>
                   get_track_strength_at_frame (tracks ! j) (a_frame_number args)
                     (a_fps args) (a_trigger_mode args) tpb tempo (a_decay_rate args) = Inr x \<and>
                   track_states (ls_session st') ! j = x * a_mix_strength args)"
        by blast
      then show "track_states (ls_session st') ! j = track_states (ls_session st) ! j \<or>
              (\<exists>x. j \<in> set (i # is) \<and> j < length tracks \<and>
                   j < length (track_states (ls_session st)) \<and>
                   get_track_strength_at_frame (tracks ! j) (a_frame_number args)
                     (a_fps args) (a_trigger_mode args) tpb tempo (a_decay_rate args) = Inr x \<and>
                   track_states (ls_session st') ! j = x * a_mix_strength args)"
      proof
        assume same: "track_states (ls_session st') ! j = track_states (ls_session st1) ! j"
        from one_slots have "track_states (ls_session st1) ! j = track_states (ls_session st) ! j \<or>
              (\<exists>x. j = i \<and> j < length tracks \<and>
                   j < length (track_states (ls_session st)) \<and>
                   get_track_strength_at_frame (tracks ! j) (a_frame_number args)
                     (a_fps args) (a_trigger_mode args) tpb tempo (a_decay_rate args) = Inr x \<and>
                   track_states (ls_session st1) ! j = x * a_mix_strength args)" by blast
        with same show ?thesis by auto
      next
        assume "\<exists>x. j \<in> set is \<and> j < length tracks \<and>
                   j < length (track_states (ls_session st1)) \<and>
                   get_track_strength_at_frame (tracks ! j) (a_frame_number args)
                     (a_fps args) (a_trigger_mode args) tpb tempo (a_decay_rate args) = Inr x \<and>
                   track_states (ls_session st') ! j = x * a_mix_strength args"
        with one_fields show ?thesis by auto
      qed
    qed
    from fields slots show ?thesis by blast
  qed
qed


lemma update_cache_fields:
  "track_states (fst (update_cache e s c)) = track_states s \<and>
   current_frame (fst (update_cache e s c)) = a_frame_number c"
  by (simp add: update_cache_def Let_def)

lemma run_tracks_session:
  assumes "run_tracks h s1 args = (st, err)"
  shows "midi_data (ls_session st) = midi_data s1 \<and>
         cached_midi_path (ls_session st) = cached_midi_path s1 \<and>
         current_frame (ls_session st) = current_frame s1 \<and>
         length (track_states (ls_session st)) = length (track_states s1) \<and>
         (\<forall>j. track_states (ls_session st) ! j = track_states s1 ! j \<or>
              (\<exists>pm x. midi_data s1 = Some pm \<and> j < 4 \<and> j < length (pm_tracks pm) \<and>
                   j < length (track_states s1) \<and>
                   get_track_strength_at_frame (pm_tracks pm ! j) (a_frame_number args)
                     (a_fps args) (a_trigger_mode args) (pm_ticks_per_beat pm) (pm_tempo pm)
                     (a_decay_rate args) = Inr x \<and>
                   track_states (ls_session st) ! j = x * a_mix_strength args))"
proof (cases "midi_data s1")
  case None
  with assms show ?thesis by (auto simp: run_tracks_def)
next
  case (Some pm)
  with assms have "process_tracks args (pm_tracks pm) (pm_tempo pm) (pm_ticks_per_beat pm)
      [0, 1, 2, 3] \<lparr>ls_session = s1, ls_heap = h, ls_model = a_model args,
                 ls_positive = a_positive args, ls_negative = a_negative args\<rparr> = (st, err)"
    by (simp add: run_tracks_def)
  note loop = process_tracks_session[OF this]
  have four: "\<And>j. j \<in> set [0, 1, 2, 3::nat] \<Longrightarrow> j < 4" by auto
  have "\<forall>j. track_states (ls_session st) ! j = track_states s1 ! j \<or>
              (\<exists>pm x. midi_data s1 = Some pm \<and> j < 4 \<and> j < length (pm_tracks pm) \<and>
                   j < length (track_states s1) \<and>
                   get_track_strength_at_frame (pm_tracks pm ! j) (a_frame_number args)
                     (a_fps args) (a_trigger_mode args) (pm_ticks_per_beat pm) (pm_tempo pm)
                     (a_decay_rate args) = Inr x \<and>
                   track_states (ls_session st) ! j = x * a_mix_strength args)"
  proof
    fix j
    from loop have "track_states (ls_session st) ! j = track_states s1 ! j \<or>
       (\<exists>x. j \<in> set [0, 1, 2, 3] \<and> j < length (pm_tracks pm) \<and>
                   j < length (track_states s1) \<and>
                   get_track_strength_at_frame (pm_tracks pm ! j) (a_frame_number args)
                     (a_fps args) (a_trigger_mode args) (pm_ticks_per_beat pm) (pm_tempo pm)
                     (a_decay_rate args) = Inr x \<and>
                   track_states (ls_session st) ! j = x * a_mix_strength args)"
      by simp
    then show "track_states (ls_session st) ! j = track_states s1 ! j \<or>
              (\<exists>pm x. midi_data s1 = Some pm \<and> j < 4 \<and> j < length (pm_tracks pm) \<and>
                   j < length (track_states s1) \<and>
                   get_track_strength_at_frame (pm_tracks pm ! j) (a_frame_number args)
                     (a_fps args) (a_trigger_mode args) (pm_ticks_per_beat pm) (pm_tempo pm)
                     (a_decay_rate args) = Inr x \<and>
                   track_states (ls_session st) ! j = x * a_mix_strength args)"
    proof
      assume "track_states (ls_session st) ! j = track_states s1 ! j"
      then show ?thesis by simp
    next
      assume "\<exists>x. j \<in> set [0, 1, 2, 3] \<and> j < length (pm_tracks pm) \<and>
                   j < length (track_states s1) \<and>
                   get_track_strength_at_frame (pm_tracks pm ! j) (a_frame_number args)
                     (a_fps args) (a_trigger_mode args) (pm_ticks_per_beat pm) (pm_tempo pm)
                     (a_decay_rate args) = Inr x \<and>
                   track_states (ls_session st) ! j = x * a_mix_strength args"
      then obtain x where x: "j \<in> set [0, 1, 2, 3]" "j < length (pm_tracks pm)"
        "j < length (track_states s1)"
        "get_track_strength_at_frame (pm_tracks pm ! j) (a_frame_number args)
                     (a_fps args) (a_trigger_mode args) (pm_ticks_per_beat pm) (pm_tempo pm)
                     (a_decay_rate args) = Inr x"
        "track_states (ls_session st) ! j = x * a_mix_strength args" by blast
      from four[OF x(1)] x(2-5) Some show ?thesis by blast
    qed
  qed
  with loop show ?thesis by simp
qed

lemma mix_with_midi_session:
  "r_parsed (mix_with_midi e h s c) = snd (update_cache e s c) \<and>
   midi_data (r_session (mix_with_midi e h s c)) = midi_data (fst (update_cache e s c)) \<and>
   cached_midi_path (r_session (mix_with_midi e h s c)) =
     cached_midi_path (fst (update_cache e s c)) \<and>
   current_frame (r_session (mix_with_midi e h s c)) = a_frame_number c \<and>
   length (track_states (r_session (mix_with_midi e h s c))) = length (track_states s) \<and>
   (\<forall>j. track_states (r_session (mix_with_midi e h s c)) ! j = track_states s ! j \<or>
        (\<exists>pm x. midi_data (r_session (mix_with_midi e h s c)) = Some pm \<and> j < 4 \<and>
             j < length (pm_tracks pm) \<and> j < length (track_states s) \<and>
             get_track_strength_at_frame (pm_tracks pm ! j) (a_frame_number c)
               (a_fps c) (a_trigger_mode c) (pm_ticks_per_beat pm) (pm_tempo pm)
               (a_decay_rate c) = Inr x \<and>
             track_states (r_session (mix_with_midi e h s c)) ! j = x * a_mix_strength c))"
proof -
  obtain s1 parsed where uc: "update_cache e s c = (s1, parsed)"
    by (cases "update_cache e s c")
  obtain st err where rt: "run_tracks h s1 c = (st, err)"
    by (cases "run_tracks h s1 c")
  have r: "r_session (mix_with_midi e h s c) = ls_session st"
    "r_parsed (mix_with_midi e h s c) = parsed"
    using uc rt by (simp_all add: mix_with_midi_def)
  have s1: "track_states s1 = track_states s" "current_frame s1 = a_frame_number c"
    using update_cache_fields[of e s c] uc by simp_all
  from run_tracks_session[OF rt] show ?thesis
    unfolding r uc s1 by simp
qed

lemma update_cache_same:
  assumes "midi_path_of c = [] \<or> cached_midi_path s = Some (midi_path_of c)"
  shows "update_cache e s c = (s\<lparr>current_frame := a_frame_number c\<rparr>, [])"
  using assms by (auto simp: update_cache_def Let_def)

lemma update_cache_new:
  assumes "midi_path_of c \<noteq> []" "cached_midi_path s \<noteq> Some (midi_path_of c)"
  shows "update_cache e s c =
     (s\<lparr>midi_data := parse_midi_file e (midi_path_of c),
        cached_midi_path := Some (midi_path_of c),
        current_frame := a_frame_number c\<rparr>, [midi_path_of c])"
  using assms by (auto simp: update_cache_def Let_def)

subsection \<open>Bounds of the strength of a track\<close>

lemma track_events_valid:
  "list_all valid_msg ms \<Longrightarrow> list_all (\<lambda>ev. ev_velocity ev \<le> 127) (track_events t ms)"
  by (induction t ms rule: track_events.induct) simp_all

lemma parse_midi_file_valid:
  assumes "parse_midi_file e p = Some pm" and "\<forall>mid. MidiFile e p = Some mid \<longrightarrow> valid_file mid"
  shows "valid_midi pm"
proof -
  from assms(1) obtain mid where mid: "MidiFile e p = Some mid"
    and pm: "pm_tracks pm = map (track_events 0) (take 4 (mf_tracks mid))"
       "pm_ticks_per_beat pm = mf_ticks_per_beat mid"
    by (auto simp: parse_midi_file_def Let_def split: if_splits option.splits list.splits)
  from assms(2) mid have v: "valid_file mid" by simp
  have "list_all (list_all valid_msg) (take 4 (mf_tracks mid))"
    using v by (auto simp: valid_file_def list_all_iff dest: in_set_takeD)
  then have "list_all (list_all (\<lambda>ev. ev_velocity ev \<le> 127))
      (map (track_events 0) (take 4 (mf_tracks mid)))"
    by (auto simp: list_all_iff track_events_valid[unfolded list_all_iff])
  with v pm show ?thesis by (simp add: valid_midi_def valid_file_def)
qed

lemma sum_list_unit_interval:
  fixes xs :: "real list"
  assumes "\<forall>x \<in> set xs. 0 \<le> x \<and> x \<le> 1"
  shows "0 \<le> sum_list xs \<and> sum_list xs \<le> real (length xs)"
  using assms by (induction xs) auto

lemma mean_unit_interval:
  assumes "xs \<noteq> []" and "\<forall>x \<in> set xs. 0 \<le> x \<and> x \<le> 1"
  shows "0 \<le> mean xs \<and> mean xs \<le> 1"
proof -
  have len: "0 < real (length xs)" using assms(1) by simp
  from sum_list_unit_interval[OF assms(2)]
  have "0 \<le> sum_list xs" "sum_list xs \<le> real (length xs)" by simp_all
  then show ?thesis using len by (simp add: mean_def)
qed

lemma active_notes_subset: "set (active_notes track t) \<subseteq> set track"
  by (auto simp: active_notes_def active_indices_def)

lemma pulse_strength_unit_interval:
  assumes "pulse_strength m t tpb d = Inr x" and "0 < tpb" and "0 \<le> d"
    and "0 < ev_velocity m" and "ev_velocity m \<le> 127" and "real_of_int (ev_time m) \<le> t"
  shows "0 \<le> x \<and> x \<le> 1"
proof -
  define v where "v = real_of_int (ev_velocity m) / 127"
  define decay where "decay = max 0 (1 - (t - real_of_int (ev_time m)) / real_of_int tpb * d)"
  have x: "x = v * decay"
    using assms(1,2) by (simp add: pulse_strength_def Let_def v_def decay_def)
  have v: "0 \<le> v" "v \<le> 1" using assms(4,5) by (simp_all add: v_def)
  have "0 \<le> (t - real_of_int (ev_time m)) / real_of_int tpb"
    using assms(2,6) by simp
  then have "0 \<le> (t - real_of_int (ev_time m)) / real_of_int tpb * d"
    using assms(3) by (rule mult_nonneg_nonneg)
  then have d: "0 \<le> decay" "decay \<le> 1" by (simp_all add: decay_def)
  have "0 \<le> v * decay" using v(1) d(1) by simp
  moreover have "v * decay \<le> 1" using v d by (simp add: mult_le_one)
  ultimately show ?thesis using x by simp
qed

lemma strength_at_tick_unit_interval:
  assumes "strength_at_tick track t mode tpb d = Inr x"
    and "list_all (\<lambda>ev. ev_velocity ev \<le> 127) track" and "0 < tpb" and "0 \<le> d"
  shows "0 \<le> x \<and> x \<le> 1"
proof (cases "active_notes track t = []")
  case True
  with assms(1) show ?thesis by (simp add: strength_at_tick_def)
next
  case False
  have vel: "\<And>n. n \<in> set (active_notes track t) \<Longrightarrow>
      0 < ev_velocity n \<and> ev_velocity n \<le> 127 \<and> real_of_int (ev_time n) \<le> t"
    using active_notes_mem active_notes_subset assms(2) by (fastforce simp: list_all_iff)
  consider (velocity) "mode = ''Velocity''" | (pulse) "mode = ''Pulse''"
    | (hold) "mode = ''Hold''" | (toggle) "mode = ''Toggle''"
    | (other) "mode \<noteq> ''Velocity''" "mode \<noteq> ''Pulse''" "mode \<noteq> ''Hold''" "mode \<noteq> ''Toggle''"
    by blast
  then show ?thesis
  proof cases
    case velocity
    have "\<forall>y \<in> set (map (\<lambda>n. real_of_int (ev_velocity n) / 127) (active_notes track t)).
        0 \<le> y \<and> y \<le> 1"
    proof
      fix y
      assume "y \<in> set (map (\<lambda>n. real_of_int (ev_velocity n) / 127) (active_notes track t))"
      then obtain n where n: "n \<in> set (active_notes track t)"
        "y = real_of_int (ev_velocity n) / 127" by auto
      from vel[OF n(1)] have "0 < ev_velocity n" "ev_velocity n \<le> 127" by simp_all
      then show "0 \<le> y \<and> y \<le> 1" using n(2) by simp
    qed
    from mean_unit_interval[OF _ this] False
    have "0 \<le> mean (map (\<lambda>n. real_of_int (ev_velocity n) / 127) (active_notes track t)) \<and>
          mean (map (\<lambda>n. real_of_int (ev_velocity n) / 127) (active_notes track t)) \<le> 1"
      by simp
    with assms(1) False velocity show ?thesis by (simp add: strength_at_tick_def)
  next
    case pulse
    from False obtain m where m: "most_recent_of (active_notes track t) = Some m"
      by (cases "active_notes track t") (simp_all add: most_recent_of_def)
    with assms(1) False pulse have p: "pulse_strength m t tpb d = Inr x"
      by (simp add: strength_at_tick_def)
    from vel[OF most_recent_of_mem[OF m]]
    show ?thesis using pulse_strength_unit_interval[OF p assms(3,4)] by simp
  next
    case hold
    with assms(1) False show ?thesis by (simp add: strength_at_tick_def)
  next
    case toggle
    with assms(1) False show ?thesis
      by (simp add: strength_at_tick_def split: if_splits)
  next
    case other
    with assms(1) False show ?thesis by (simp add: strength_at_tick_def)
  qed
qed

lemma get_track_strength_unit_interval:
  assumes "get_track_strength_at_frame track frame fps mode tpb tempo d = Inr x"
    and "list_all (\<lambda>ev. ev_velocity ev \<le> 127) track" and "0 < tpb" and "0 \<le> d"
  shows "0 \<le> x \<and> x \<le> 1"
proof (cases "track = []")
  case True
  with assms(1) show ?thesis by (simp add: get_track_strength_at_frame_def)
next
  case False
  with assms(1) obtain t where "strength_at_tick track t mode tpb d = Inr x"
    by (auto simp: get_track_strength_at_frame_def split: sum.splits)
  from strength_at_tick_unit_interval[OF this assms(2,3,4)] show ?thesis .
qed

subsection \<open>The example, evaluated\<close>

lemma parse_a: "parse_midi_file example_env ''a.mid'' =
   Some \<lparr>pm_tracks = [[\<lparr>ev_time = 0, ev_type = note_on, ev_note = 60, ev_velocity = 100\<rparr>],
                      [\<lparr>ev_time = 0, ev_type = note_on, ev_note = 36, ev_velocity = 127\<rparr>]],
         pm_tempo = 600000, pm_ticks_per_beat = 480, pm_bpm = 100\<rparr>"
  by (simp add: parse_midi_file_def example_env_def)

lemma parse_b: "parse_midi_file example_env ''b.mid'' =
   Some \<lparr>pm_tracks = [[\<lparr>ev_time = 0, ev_type = note_on, ev_note = 60, ev_velocity = 100\<rparr>]],
         pm_tempo = 500000, pm_ticks_per_beat = 480, pm_bpm = 120\<rparr>"
  by (simp add: parse_midi_file_def example_env_def)

lemma hold_single:
  "get_track_strength_at_frame [\<lparr>ev_time = 0, ev_type = note_on, ev_note = n, ev_velocity = v\<rparr>]
      0 30 ''Hold'' 480 t 2 = (if t = 0 then Inl ZeroDivisionError else if 0 < v then Inr 1 else Inr 0)"
  by (simp add: get_track_strength_at_frame_def midi_time_of_def strength_at_tick_def
      active_notes_def active_indices_def is_active_def)

lemma first_call: "mix_with_midi example_env example_heap init_session
           (example_call (Some ''a.mid'') ''Hold'' 1) =
   \<lparr>r_session = \<lparr>midi_data = parse_midi_file example_env ''a.mid'', current_frame = 0,
        track_states = [1, 1, 0, 0], cached_midi_path = Some ''a.mid''\<rparr>,
    r_heap = example_heap, r_parsed = [''a.mid''],
    r_result = Inr \<lparr>o_model = HostObj 0, o_positive = Ref 0, o_negative = Ref 1,
       o_frame = 0, o_fps = 30, o_bpm = 100, o_bars = [5, 5, 0, 0],
       o_mix_values = [1, 1, 0, 0]\<rparr>\<rparr>"
  unfolding parse_a
  by (simp add: mix_with_midi_def update_cache_def midi_path_of_def example_call_def
      no_kwargs_def init_session_def parse_a run_tracks_def process_track_def hold_single
      bpm_of_def mix_result_def bar_level_def Let_def)



lemma mix_with_midi_result:
  assumes "r_result (mix_with_midi e h s c) = Inr out"
  shows "o_bpm out = bpm_of (fst (update_cache e s c)) \<and>
         o_mix_values out = track_states (r_session (mix_with_midi e h s c)) \<and>
         o_frame out = a_frame_number c \<and> o_fps out = a_fps c"
proof -
  obtain s1 parsed where uc: "update_cache e s c = (s1, parsed)"
    by (cases "update_cache e s c")
  obtain st err where rt: "run_tracks h s1 c = (st, err)"
    by (cases "run_tracks h s1 c")
  have r: "r_session (mix_with_midi e h s c) = ls_session st"
    "r_result (mix_with_midi e h s c) = mix_result c (bpm_of s1) st err"
    using uc rt by (simp_all add: mix_with_midi_def Let_def)
  from assms r(2) have "mix_result c (bpm_of s1) st err = Inr out" by simp
  then show ?thesis unfolding r(1) uc
    by (auto simp: mix_result_def split: option.splits sum.splits)
qed

lemma mix_with_midi_no_data:
  assumes "midi_data (fst (update_cache e s c)) = None"
  shows "r_session (mix_with_midi e h s c) = fst (update_cache e s c) \<and>
         r_heap (mix_with_midi e h s c) = h \<and>
         r_result (mix_with_midi e h s c) =
           (case bar_levels (take 4 (track_states s)) of
              Inl x \<Rightarrow> Inl x
            | Inr bars \<Rightarrow> Inr \<lparr>o_model = a_model c, o_positive = a_positive c,
                 o_negative = a_negative c, o_frame = a_frame_number c, o_fps = a_fps c,
                 o_bpm = 120, o_bars = bars, o_mix_values = track_states s\<rparr>)"
proof -
  obtain s1 parsed where uc: "update_cache e s c = (s1, parsed)"
    by (cases "update_cache e s c")
  with assms have none: "midi_data s1 = None" by simp
  have ts: "track_states s1 = track_states s"
    using update_cache_fields[of e s c] uc by simp
  show ?thesis
    using uc none ts
    by (simp add: mix_with_midi_def run_tracks_def bpm_of_def mix_result_def Let_def
        split: sum.splits)
qed

lemma track_states_unchanged_without_data:
  assumes "midi_data (fst (update_cache e s c)) = None"
  shows "track_states (r_session (mix_with_midi e h s c)) = track_states s"
  using mix_with_midi_no_data[OF assms, of h] update_cache_fields[of e s c] by simp

subsection \<open>The cache of the parsed file\<close>

text \<open>
  C5. Two calls in succession with the same non-empty path \<open>p\<close>: the second call
  calls \<^verbatim>\<open>parse_midi_file\<close> not at all and leaves the parsed data and the cached
  path as the first call left them; the cached path is \<open>p\<close>. When the object did not
  already hold \<open>p\<close> as its cached path (a new object holds none), the two calls
  together parse exactly once, the path \<open>p\<close>. A call afterwards with a different
  non-empty path \<open>q\<close> parses exactly once, the path \<open>q\<close>, and caches it.
\<close>

theorem same_path_parses_once:
  assumes "p \<noteq> []" and "midi_path_of c1 = p" and "midi_path_of c2 = p"
    and "midi_path_of c3 = q" and "q \<noteq> []" and "q \<noteq> p"
  shows "r_parsed (mix_with_midi e (r_heap (mix_with_midi e h s c1))
                     (r_session (mix_with_midi e h s c1)) c2) = [] \<and>
    midi_data (r_session (mix_with_midi e (r_heap (mix_with_midi e h s c1))
                     (r_session (mix_with_midi e h s c1)) c2))
      = midi_data (r_session (mix_with_midi e h s c1)) \<and>
    cached_midi_path (r_session (mix_with_midi e (r_heap (mix_with_midi e h s c1))
                     (r_session (mix_with_midi e h s c1)) c2))
      = cached_midi_path (r_session (mix_with_midi e h s c1)) \<and>
    cached_midi_path (r_session (mix_with_midi e h s c1)) = Some p \<and>
    (cached_midi_path s \<noteq> Some p \<longrightarrow>
       r_parsed (mix_with_midi e h s c1) @
       r_parsed (mix_with_midi e (r_heap (mix_with_midi e h s c1))
                     (r_session (mix_with_midi e h s c1)) c2) = [p] \<and>
       midi_data (r_session (mix_with_midi e h s c1)) = parse_midi_file e p) \<and>
    r_parsed (mix_with_midi e h3
                (r_session (mix_with_midi e (r_heap (mix_with_midi e h s c1))
                     (r_session (mix_with_midi e h s c1)) c2)) c3) = [q] \<and>
    midi_data (r_session (mix_with_midi e h3
                (r_session (mix_with_midi e (r_heap (mix_with_midi e h s c1))
                     (r_session (mix_with_midi e h s c1)) c2)) c3)) = parse_midi_file e q \<and>
    cached_midi_path (r_session (mix_with_midi e h3
                (r_session (mix_with_midi e (r_heap (mix_with_midi e h s c1))
                     (r_session (mix_with_midi e h s c1)) c2)) c3)) = Some q"
proof -
  define r1 where "r1 = mix_with_midi e h s c1"
  define r2 where "r2 = mix_with_midi e (r_heap r1) (r_session r1) c2"
  define r3 where "r3 = mix_with_midi e h3 (r_session r2) c3"
  have c1: "cached_midi_path (r_session r1) = Some p"
  proof (cases "cached_midi_path s = Some p")
    case True
    then show ?thesis
      using mix_with_midi_session[of e h s c1] update_cache_same[of c1 s e] assms(2)
      by (simp add: r1_def)
  next
    case False
    then show ?thesis
      using mix_with_midi_session[of e h s c1] update_cache_new[of c1 s e] assms(1,2)
      by (simp add: r1_def)
  qed
  have first: "cached_midi_path s \<noteq> Some p \<longrightarrow>
     r_parsed r1 = [p] \<and> midi_data (r_session r1) = parse_midi_file e p"
    using mix_with_midi_session[of e h s c1] update_cache_new[of c1 s e] assms(1,2)
    by (simp add: r1_def)
  have u2: "update_cache e (r_session r1) c2 =
      ((r_session r1)\<lparr>current_frame := a_frame_number c2\<rparr>, [])"
    using update_cache_same[of c2 "r_session r1" e] c1 assms(3) by simp
  have second: "r_parsed r2 = []" "midi_data (r_session r2) = midi_data (r_session r1)"
    "cached_midi_path (r_session r2) = cached_midi_path (r_session r1)"
    using mix_with_midi_session[of e "r_heap r1" "r_session r1" c2] u2
    by (simp_all add: r2_def)
  have u3: "update_cache e (r_session r2) c3 =
     ((r_session r2)\<lparr>midi_data := parse_midi_file e q, cached_midi_path := Some q,
        current_frame := a_frame_number c3\<rparr>, [q])"
    using update_cache_new[of c3 "r_session r2" e] second(3) c1 assms(4,5,6) by simp
  have third: "r_parsed r3 = [q]" "midi_data (r_session r3) = parse_midi_file e q"
    "cached_midi_path (r_session r3) = Some q"
    using mix_with_midi_session[of e h3 "r_session r2" c3] u3
    by (simp_all add: r3_def)
  show ?thesis
    using c1 first second third unfolding r3_def r2_def r1_def by simp
qed

lemma example_path: "midi_path_of (example_call path mode mix) = (case path of None \<Rightarrow> [] | Some p \<Rightarrow> p)"
  by (simp add: midi_path_of_def example_call_def no_kwargs_def)

theorem same_path_parses_once_witness:
  "cached_midi_path init_session \<noteq> Some ''a.mid'' \<and>
   r_parsed (mix_with_midi example_env example_heap init_session
               (example_call (Some ''a.mid'') ''Hold'' 1)) @
   r_parsed (mix_with_midi example_env
               (r_heap (mix_with_midi example_env example_heap init_session
                   (example_call (Some ''a.mid'') ''Hold'' 1)))
               (r_session (mix_with_midi example_env example_heap init_session
                   (example_call (Some ''a.mid'') ''Hold'' 1)))
               (example_call (Some ''a.mid'') ''Pulse'' 1)) = [''a.mid'']"
proof -
  have p: "''a.mid'' \<noteq> []" and q: "''b.mid'' \<noteq> []" "''b.mid'' \<noteq> ''a.mid''"
    by simp_all
  have c1: "midi_path_of (example_call (Some ''a.mid'') ''Hold'' 1) = ''a.mid''"
    and c2: "midi_path_of (example_call (Some ''a.mid'') ''Pulse'' 1) = ''a.mid''"
    and c3: "midi_path_of (example_call (Some ''b.mid'') ''Hold'' 1) = ''b.mid''"
    by (simp_all add: example_path)
  have fresh: "cached_midi_path init_session \<noteq> Some ''a.mid''"
    by (simp add: init_session_def)
  from same_path_parses_once[OF p c1 c2 c3 q,
      of example_env example_heap init_session example_heap] fresh
  show ?thesis by blast
qed

lemma run_calls_same_path:
  assumes "\<forall>c \<in> set cs. midi_path_of c = p" and "cached_midi_path s = Some p"
    and "midi_data s = None"
    and "run_calls e h s cs = (h', s', ps)"
  shows "ps = [] \<and> midi_data s' = None \<and> cached_midi_path s' = Some p \<and>
         track_states s' = track_states s"
  using assms
proof (induction cs arbitrary: h s h' s' ps)
  case Nil
  then show ?case by simp
next
  case (Cons c cs)
  define r where "r = mix_with_midi e h s c"
  have pc: "midi_path_of c = p" using Cons.prems(1) by simp
  have uc: "update_cache e s c = (s\<lparr>current_frame := a_frame_number c\<rparr>, [])"
    using update_cache_same[of c s e] pc Cons.prems(2) by simp
  have none: "midi_data (fst (update_cache e s c)) = None"
    using uc Cons.prems(3) by simp
  have r1: "r_parsed r = []" "midi_data (r_session r) = None"
    "cached_midi_path (r_session r) = Some p"
    using mix_with_midi_session[of e h s c] uc Cons.prems(2,3) by (simp_all add: r_def)
  have r2: "track_states (r_session r) = track_states s"
    using track_states_unchanged_without_data[OF none, of h] by (simp add: r_def)
  obtain h1 s1 ps1 where rest: "run_calls e (r_heap r) (r_session r) cs = (h1, s1, ps1)"
    by (cases "run_calls e (r_heap r) (r_session r) cs") auto
  have all: "\<forall>c \<in> set cs. midi_path_of c = p" using Cons.prems(1) by simp
  note ih = Cons.IH[OF all r1(3) r1(2) rest]
  from Cons.prems(4) rest have "h' = h1" "s' = s1" "ps = r_parsed r @ ps1"
    by (simp_all add: r_def Let_def)
  with ih r1(1) r2 show ?case by simp
qed

text \<open>
  C9. A call with a non-empty path \<open>p\<close> that the object has not cached, whose parse
  fails (\<^verbatim>\<open>parse_midi_file\<close> returns \<^verbatim>\<open>None\<close>): the call parses once, the cached
  path becomes \<open>p\<close> and the parsed data is \<^verbatim>\<open>None\<close>. Every run of later calls with the
  same path parses nothing, keeps the parsed data \<^verbatim>\<open>None\<close> and the cached path
  \<open>p\<close>, and leaves the stored strengths as they were; a call after them with a
  different non-empty path parses again.
\<close>

theorem failed_parse_is_cached:
  assumes "p \<noteq> []" and "midi_path_of c = p" and "cached_midi_path s \<noteq> Some p"
    and "parse_midi_file e p = None"
    and "\<forall>c' \<in> set cs. midi_path_of c' = p"
    and "run_calls e (r_heap (mix_with_midi e h s c)) (r_session (mix_with_midi e h s c)) cs
           = (h', s', ps)"
  shows "r_parsed (mix_with_midi e h s c) = [p] \<and>
         cached_midi_path (r_session (mix_with_midi e h s c)) = Some p \<and>
         midi_data (r_session (mix_with_midi e h s c)) = None \<and>
         ps = [] \<and> midi_data s' = None \<and> cached_midi_path s' = Some p \<and>
         track_states s' = track_states s \<and>
         (midi_path_of c'' \<noteq> [] \<and> midi_path_of c'' \<noteq> p \<longrightarrow>
            r_parsed (mix_with_midi e h' s' c'') = [midi_path_of c''])"
proof -
  define r where "r = mix_with_midi e h s c"
  have uc: "update_cache e s c =
     (s\<lparr>midi_data := None, cached_midi_path := Some p,
        current_frame := a_frame_number c\<rparr>, [p])"
    using update_cache_new[of c s e] assms(1-4) by simp
  have r1: "r_parsed r = [p]" "midi_data (r_session r) = None"
    "cached_midi_path (r_session r) = Some p"
    using mix_with_midi_session[of e h s c] uc by (simp_all add: r_def)
  have none: "midi_data (fst (update_cache e s c)) = None" using uc by simp
  have r2: "track_states (r_session r) = track_states s"
    using track_states_unchanged_without_data[OF none, of h] by (simp add: r_def)
  note later = run_calls_same_path[OF assms(5) r1(3) r1(2) assms(6)[folded r_def]]
  have again: "midi_path_of c'' \<noteq> [] \<and> midi_path_of c'' \<noteq> p \<longrightarrow>
            r_parsed (mix_with_midi e h' s' c'') = [midi_path_of c'']"
  proof
    assume a: "midi_path_of c'' \<noteq> [] \<and> midi_path_of c'' \<noteq> p"
    with later have "cached_midi_path s' \<noteq> Some (midi_path_of c'')" by auto
    from update_cache_new[OF _ this, of e] a mix_with_midi_session[of e h' s' c'']
    show "r_parsed (mix_with_midi e h' s' c'') = [midi_path_of c'']" by simp
  qed
  from r1 r2 later again show ?thesis unfolding r_def by simp
qed

lemma parse_midi_file_fails:
  assumes "\<not> midi_available e \<or> \<not> path_exists e p \<or> MidiFile e p = None"
  shows "parse_midi_file e p = None"
  using assms by (auto simp: parse_midi_file_def)

lemma parse_missing: "parse_midi_file example_env ''missing.mid'' = None"
  by (simp add: parse_midi_file_def example_env_def)

theorem failed_parse_is_cached_witness:
  "parse_midi_file example_env ''missing.mid'' = None \<and>
   r_parsed (mix_with_midi example_env example_heap init_session
               (example_call (Some ''missing.mid'') ''Hold'' 1)) = [''missing.mid''] \<and>
   midi_data (r_session (mix_with_midi example_env example_heap init_session
               (example_call (Some ''missing.mid'') ''Hold'' 1))) = None \<and>
   snd (snd (run_calls example_env
     (r_heap (mix_with_midi example_env example_heap init_session
               (example_call (Some ''missing.mid'') ''Hold'' 1)))
     (r_session (mix_with_midi example_env example_heap init_session
               (example_call (Some ''missing.mid'') ''Hold'' 1)))
     [example_call (Some ''missing.mid'') ''Hold'' 1,
      example_call (Some ''missing.mid'') ''Pulse'' 1])) = []"
proof -
  define r where "r = mix_with_midi example_env example_heap init_session
               (example_call (Some ''missing.mid'') ''Hold'' 1)"
  define cs where "cs = [example_call (Some ''missing.mid'') ''Hold'' 1,
      example_call (Some ''missing.mid'') ''Pulse'' 1]"
  obtain h' s' ps where run: "run_calls example_env (r_heap r) (r_session r) cs = (h', s', ps)"
    by (cases "run_calls example_env (r_heap r) (r_session r) cs") auto
  have p: "''missing.mid'' \<noteq> []" by simp
  have c: "midi_path_of (example_call (Some ''missing.mid'') ''Hold'' 1) = ''missing.mid''"
    by (simp add: example_path)
  have fresh: "cached_midi_path init_session \<noteq> Some ''missing.mid''"
    by (simp add: init_session_def)
  have all: "\<forall>c' \<in> set cs. midi_path_of c' = ''missing.mid''"
    by (simp add: cs_def example_path)
  from failed_parse_is_cached[OF p c fresh parse_missing all run[unfolded r_def]]
  have "r_parsed r = [''missing.mid''] \<and> midi_data (r_session r) = None \<and> ps = []"
    unfolding r_def by blast
  with run parse_missing show ?thesis unfolding r_def cs_def by simp
qed

subsection \<open>A call that returns has written every slot that has a track\<close>

lemma process_track_ok:
  assumes "process_track args tracks tempo tpb i st = (st', None)" and "i < length tracks"
  shows "\<exists>x. get_track_strength_at_frame (tracks ! i) (a_frame_number args) (a_fps args)
                (a_trigger_mode args) tpb tempo (a_decay_rate args) = Inr x \<and>
              i < length (track_states (ls_session st)) \<and>
              ls_session st' = (ls_session st)
                \<lparr>track_states := (track_states (ls_session st))[i := x * a_mix_strength args]\<rparr>"
proof (cases "get_track_strength_at_frame (tracks ! i) (a_frame_number args) (a_fps args)
                (a_trigger_mode args) tpb tempo (a_decay_rate args)")
  case (Inl e)
  with assms show ?thesis by (simp add: process_track_def)
next
  case (Inr x)
  show ?thesis
  proof (cases "i < length (track_states (ls_session st))")
    case False
    with assms Inr show ?thesis by (simp add: process_track_def)
  next
    case True
    have "ls_session st' = (ls_session st)
           \<lparr>track_states := (track_states (ls_session st))[i := x * a_mix_strength args]\<rparr>"
      using assms Inr True
      by (auto simp: process_track_def Let_def split: option.splits prod.splits sum.splits)
    with Inr True show ?thesis by simp
  qed
qed

lemma process_tracks_ok:
  assumes "process_tracks args tracks tempo tpb is st = (st', None)" and "distinct is"
  shows "\<forall>j \<in> set is. j < length tracks \<longrightarrow>
     (\<exists>x. get_track_strength_at_frame (tracks ! j) (a_frame_number args) (a_fps args)
                (a_trigger_mode args) tpb tempo (a_decay_rate args) = Inr x \<and>
          track_states (ls_session st') ! j = x * a_mix_strength args)"
  using assms
proof (induction "is" arbitrary: st)
  case Nil
  then show ?case by simp
next
  case (Cons i "is")
  obtain st1 e1 where step: "process_track args tracks tempo tpb i st = (st1, e1)"
    by (cases "process_track args tracks tempo tpb i st")
  have e1: "e1 = None"
  proof (cases e1)
    case None
    then show ?thesis .
  next
    case (Some x)
    with Cons.prems(1) step show ?thesis by simp
  qed
  with Cons.prems(1) step
  have rest: "process_tracks args tracks tempo tpb is st1 = (st', None)" by simp
  from Cons.prems(2) have d: "distinct is" and notin: "i \<notin> set is" by simp_all
  note ih = Cons.IH[OF rest d]
  have head: "i < length tracks \<longrightarrow>
     (\<exists>x. get_track_strength_at_frame (tracks ! i) (a_frame_number args) (a_fps args)
                (a_trigger_mode args) tpb tempo (a_decay_rate args) = Inr x \<and>
          track_states (ls_session st') ! i = x * a_mix_strength args)"
  proof
    assume lt: "i < length tracks"
    from process_track_ok[OF step[unfolded e1] lt] obtain x where x:
      "get_track_strength_at_frame (tracks ! i) (a_frame_number args) (a_fps args)
                (a_trigger_mode args) tpb tempo (a_decay_rate args) = Inr x"
      "i < length (track_states (ls_session st))"
      "ls_session st1 = (ls_session st)
                \<lparr>track_states := (track_states (ls_session st))[i := x * a_mix_strength args]\<rparr>"
      by blast
    have one: "track_states (ls_session st1) ! i = x * a_mix_strength args"
      using x(2,3) by simp
    from process_tracks_session[OF rest] notin
    have "track_states (ls_session st') ! i = track_states (ls_session st1) ! i" by blast
    with one x(1) show "\<exists>x. get_track_strength_at_frame (tracks ! i) (a_frame_number args)
                (a_fps args) (a_trigger_mode args) tpb tempo (a_decay_rate args) = Inr x \<and>
          track_states (ls_session st') ! i = x * a_mix_strength args" by simp
  qed
  from head ih show ?case by simp
qed

lemma mix_with_midi_written:
  assumes "r_result (mix_with_midi e h s c) = Inr out"
    and "midi_data (fst (update_cache e s c)) = Some pm"
  shows "\<forall>j. j < 4 \<and> j < length (pm_tracks pm) \<longrightarrow>
     (\<exists>x. get_track_strength_at_frame (pm_tracks pm ! j) (a_frame_number c) (a_fps c)
                (a_trigger_mode c) (pm_ticks_per_beat pm) (pm_tempo pm) (a_decay_rate c)
             = Inr x \<and>
          track_states (r_session (mix_with_midi e h s c)) ! j = x * a_mix_strength c)"
proof -
  obtain s1 parsed where uc: "update_cache e s c = (s1, parsed)"
    by (cases "update_cache e s c")
  obtain st err where rt: "run_tracks h s1 c = (st, err)"
    by (cases "run_tracks h s1 c")
  have r: "r_session (mix_with_midi e h s c) = ls_session st"
    "r_result (mix_with_midi e h s c) = mix_result c (bpm_of s1) st err"
    using uc rt by (simp_all add: mix_with_midi_def Let_def)
  from assms(1) r(2) have "err = None"
    by (cases err) (simp_all add: mix_result_def)
  with rt assms(2) uc
  have loop: "process_tracks c (pm_tracks pm) (pm_tempo pm) (pm_ticks_per_beat pm)
      [0, 1, 2, 3] \<lparr>ls_session = s1, ls_heap = h, ls_model = a_model c,
                 ls_positive = a_positive c, ls_negative = a_negative c\<rparr> = (st, None)"
    by (simp add: run_tracks_def)
  have dist: "distinct [0, 1, 2, 3::nat]" by simp
  have four: "\<And>j::nat. j < 4 \<Longrightarrow> j \<in> set [0, 1, 2, 3]" by auto
  from process_tracks_ok[OF loop dist] four show ?thesis
    unfolding r(1) by blast
qed


lemma absent_slot:
  assumes "midi_data (r_session (mix_with_midi e h s c)) = Some pm"
    and "length (pm_tracks pm) \<le> j"
  shows "track_states (r_session (mix_with_midi e h s c)) ! j = track_states s ! j"
proof -
  from mix_with_midi_session[of e h s c]
  have "track_states (r_session (mix_with_midi e h s c)) ! j = track_states s ! j \<or>
        (\<exists>pm x. midi_data (r_session (mix_with_midi e h s c)) = Some pm \<and> j < 4 \<and>
             j < length (pm_tracks pm) \<and> j < length (track_states s) \<and>
             get_track_strength_at_frame (pm_tracks pm ! j) (a_frame_number c)
               (a_fps c) (a_trigger_mode c) (pm_ticks_per_beat pm) (pm_tempo pm)
               (a_decay_rate c) = Inr x \<and>
             track_states (r_session (mix_with_midi e h s c)) ! j = x * a_mix_strength c)"
    by blast
  with assms show ?thesis by auto
qed

subsection \<open>An empty path\<close>

text \<open>
  C2, as the code has it. A call with an empty or absent path, on every object: it parses
  nothing and leaves the parsed data and the cached path as they are. While no parsed
  data is held, the stored strengths and the store are left as they are, and a call that
  returns reports 120 BPM and the stored strengths; with all four strengths 0, as on a
  new object, the call returns and the strengths it reports are all 0. While parsed data
  is held, it stays in use: a call that returns reports the BPM of that data, and the
  strengths it reports are computed from that data: for every slot that has a track,
  the strength of that track at the frame of the call times the mix strength; every
  other slot keeps its value.
\<close>

theorem empty_path_keeps_cache:
  assumes "midi_path_of c = []"
  shows "r_parsed (mix_with_midi e h s c) = [] \<and>
    midi_data (r_session (mix_with_midi e h s c)) = midi_data s \<and>
    cached_midi_path (r_session (mix_with_midi e h s c)) = cached_midi_path s \<and>
    (midi_data s = None \<longrightarrow>
       track_states (r_session (mix_with_midi e h s c)) = track_states s \<and>
       r_heap (mix_with_midi e h s c) = h \<and>
       (r_result (mix_with_midi e h s c) = Inr out \<longrightarrow>
          o_bpm out = 120 \<and> o_mix_values out = track_states s)) \<and>
    (midi_data s = None \<and> track_states s = [0, 0, 0, 0] \<longrightarrow>
       r_result (mix_with_midi e h s c) =
         Inr \<lparr>o_model = a_model c, o_positive = a_positive c, o_negative = a_negative c,
              o_frame = a_frame_number c, o_fps = a_fps c, o_bpm = 120,
              o_bars = [0, 0, 0, 0], o_mix_values = [0, 0, 0, 0]\<rparr>) \<and>
    (midi_data s = Some pm \<and> r_result (mix_with_midi e h s c) = Inr out \<longrightarrow>
       o_bpm out = pm_bpm pm \<and>
       o_mix_values out = track_states (r_session (mix_with_midi e h s c)) \<and>
       (\<forall>j. j < 4 \<and> j < length (pm_tracks pm) \<longrightarrow>
          (\<exists>x. get_track_strength_at_frame (pm_tracks pm ! j) (a_frame_number c) (a_fps c)
                  (a_trigger_mode c) (pm_ticks_per_beat pm) (pm_tempo pm) (a_decay_rate c)
                 = Inr x \<and>
               o_mix_values out ! j = x * a_mix_strength c)) \<and>
       (\<forall>j. length (pm_tracks pm) \<le> j \<longrightarrow> o_mix_values out ! j = track_states s ! j))"
proof -
  have uc: "update_cache e s c = (s\<lparr>current_frame := a_frame_number c\<rparr>, [])"
    using update_cache_same[of c s e] assms by simp
  have cache: "r_parsed (mix_with_midi e h s c) = []"
    "midi_data (r_session (mix_with_midi e h s c)) = midi_data s"
    "cached_midi_path (r_session (mix_with_midi e h s c)) = cached_midi_path s"
    using mix_with_midi_session[of e h s c] uc by simp_all
  have nodata: "midi_data s = None \<longrightarrow>
       track_states (r_session (mix_with_midi e h s c)) = track_states s \<and>
       r_heap (mix_with_midi e h s c) = h \<and>
       (r_result (mix_with_midi e h s c) = Inr out \<longrightarrow>
          o_bpm out = 120 \<and> o_mix_values out = track_states s)"
  proof
    assume none: "midi_data s = None"
    then have n: "midi_data (fst (update_cache e s c)) = None" using uc by simp
    have a: "track_states (r_session (mix_with_midi e h s c)) = track_states s"
      by (rule track_states_unchanged_without_data[OF n])
    have b: "r_heap (mix_with_midi e h s c) = h"
      using mix_with_midi_no_data[OF n, of h] by simp
    have c: "r_result (mix_with_midi e h s c) = Inr out \<longrightarrow>
          o_bpm out = 120 \<and> o_mix_values out = track_states s"
    proof
      assume res: "r_result (mix_with_midi e h s c) = Inr out"
      from mix_with_midi_result[OF res] a uc none
      show "o_bpm out = 120 \<and> o_mix_values out = track_states s"
        by (simp add: bpm_of_def)
    qed
    from a b c show "track_states (r_session (mix_with_midi e h s c)) = track_states s \<and>
       r_heap (mix_with_midi e h s c) = h \<and>
       (r_result (mix_with_midi e h s c) = Inr out \<longrightarrow>
          o_bpm out = 120 \<and> o_mix_values out = track_states s)" by simp
  qed
  have zeros: "midi_data s = None \<and> track_states s = [0, 0, 0, 0] \<longrightarrow>
       r_result (mix_with_midi e h s c) =
         Inr \<lparr>o_model = a_model c, o_positive = a_positive c, o_negative = a_negative c,
              o_frame = a_frame_number c, o_fps = a_fps c, o_bpm = 120,
              o_bars = [0, 0, 0, 0], o_mix_values = [0, 0, 0, 0]\<rparr>"
  proof
    assume z: "midi_data s = None \<and> track_states s = [0, 0, 0, 0]"
    then have n: "midi_data (fst (update_cache e s c)) = None" using uc by simp
    have bars: "bar_levels (take 4 (track_states s)) = Inr [0, 0, 0, 0]"
      using z by (simp add: bar_level_def)
    from mix_with_midi_no_data[OF n, of h] bars z
    show "r_result (mix_with_midi e h s c) =
         Inr \<lparr>o_model = a_model c, o_positive = a_positive c, o_negative = a_negative c,
              o_frame = a_frame_number c, o_fps = a_fps c, o_bpm = 120,
              o_bars = [0, 0, 0, 0], o_mix_values = [0, 0, 0, 0]\<rparr>"
      by simp
  qed
  have data: "midi_data s = Some pm \<and> r_result (mix_with_midi e h s c) = Inr out \<longrightarrow>
       o_bpm out = pm_bpm pm \<and>
       o_mix_values out = track_states (r_session (mix_with_midi e h s c)) \<and>
       (\<forall>j. j < 4 \<and> j < length (pm_tracks pm) \<longrightarrow>
          (\<exists>x. get_track_strength_at_frame (pm_tracks pm ! j) (a_frame_number c) (a_fps c)
                  (a_trigger_mode c) (pm_ticks_per_beat pm) (pm_tempo pm) (a_decay_rate c)
                 = Inr x \<and>
               o_mix_values out ! j = x * a_mix_strength c)) \<and>
       (\<forall>j. length (pm_tracks pm) \<le> j \<longrightarrow> o_mix_values out ! j = track_states s ! j)"
  proof
    assume d: "midi_data s = Some pm \<and> r_result (mix_with_midi e h s c) = Inr out"
    then have res: "r_result (mix_with_midi e h s c) = Inr out"
      and pm: "midi_data (fst (update_cache e s c)) = Some pm"
      and pm': "midi_data (r_session (mix_with_midi e h s c)) = Some pm"
      using uc cache(2) by simp_all
    note out = mix_with_midi_result[OF res]
    have bpm: "o_bpm out = pm_bpm pm" using out d uc by (simp add: bpm_of_def)
    have vals: "o_mix_values out = track_states (r_session (mix_with_midi e h s c))"
      using out by simp
    have written: "\<forall>j. j < 4 \<and> j < length (pm_tracks pm) \<longrightarrow>
          (\<exists>x. get_track_strength_at_frame (pm_tracks pm ! j) (a_frame_number c) (a_fps c)
                  (a_trigger_mode c) (pm_ticks_per_beat pm) (pm_tempo pm) (a_decay_rate c)
                 = Inr x \<and>
               o_mix_values out ! j = x * a_mix_strength c)"
      using mix_with_midi_written[OF res pm] unfolding vals .
    have kept: "\<forall>j. length (pm_tracks pm) \<le> j \<longrightarrow>
        o_mix_values out ! j = track_states s ! j"
    proof (intro allI impI)
      fix j assume "length (pm_tracks pm) \<le> j"
      from absent_slot[OF pm' this] show "o_mix_values out ! j = track_states s ! j"
        unfolding vals .
    qed
    from bpm vals written kept
    show "o_bpm out = pm_bpm pm \<and>
       o_mix_values out = track_states (r_session (mix_with_midi e h s c)) \<and>
       (\<forall>j. j < 4 \<and> j < length (pm_tracks pm) \<longrightarrow>
          (\<exists>x. get_track_strength_at_frame (pm_tracks pm ! j) (a_frame_number c) (a_fps c)
                  (a_trigger_mode c) (pm_ticks_per_beat pm) (pm_tempo pm) (a_decay_rate c)
                 = Inr x \<and>
               o_mix_values out ! j = x * a_mix_strength c)) \<and>
       (\<forall>j. length (pm_tracks pm) \<le> j \<longrightarrow> o_mix_values out ! j = track_states s ! j)"
      by blast
  qed
  from cache nodata zeros data show ?thesis by blast
qed

theorem empty_path_keeps_cache_witness:
  "midi_path_of (example_call (Some '''') ''Hold'' (1 / 2)) = [] \<and>
   r_result (mix_with_midi example_env example_heap init_session
      (example_call (Some '''') ''Hold'' (1 / 2))) =
     Inr \<lparr>o_model = HostObj 0, o_positive = Ref 0, o_negative = Ref 1,
          o_frame = 0, o_fps = 30, o_bpm = 120,
          o_bars = [0, 0, 0, 0], o_mix_values = [0, 0, 0, 0]\<rparr> \<and>
   midi_data (r_session (mix_with_midi example_env example_heap init_session
          (example_call (Some ''a.mid'') ''Hold'' 1)))
     = parse_midi_file example_env ''a.mid'' \<and>
   r_result (mix_with_midi example_env example_heap
      (r_session (mix_with_midi example_env example_heap init_session
          (example_call (Some ''a.mid'') ''Hold'' 1)))
      (example_call (Some '''') ''Hold'' (1 / 2))) =
     Inr \<lparr>o_model = HostObj 0, o_positive = Ref 0, o_negative = Ref 1,
          o_frame = 0, o_fps = 30, o_bpm = 100,
          o_bars = [2, 2, 0, 0], o_mix_values = [1 / 2, 1 / 2, 0, 0]\<rparr>"
proof -
  let ?c = "example_call (Some '''') ''Hold'' (1 / 2)"
  let ?s = "r_session (mix_with_midi example_env example_heap init_session
          (example_call (Some ''a.mid'') ''Hold'' 1))"
  let ?pm = "\<lparr>pm_tracks = [[\<lparr>ev_time = 0, ev_type = note_on, ev_note = 60, ev_velocity = 100\<rparr>],
                      [\<lparr>ev_time = 0, ev_type = note_on, ev_note = 36, ev_velocity = 127\<rparr>]],
         pm_tempo = 600000, pm_ticks_per_beat = 480, pm_bpm = 100\<rparr>"
  let ?out = "\<lparr>o_model = HostObj 0, o_positive = Ref 0, o_negative = Ref 1,
          o_frame = 0, o_fps = 30, o_bpm = 100,
          o_bars = [2, 2, 0, 0], o_mix_values = [1 / 2, 1 / 2, 0, 0]\<rparr>"
  have p: "midi_path_of ?c = []" by (simp add: example_path)
  have i: "midi_data init_session = None \<and> track_states init_session = [0, 0, 0, 0]"
    by (simp add: init_session_def)
  from empty_path_keeps_cache[OF p, of example_env example_heap init_session] i
  have fresh: "r_result (mix_with_midi example_env example_heap init_session ?c) =
     Inr \<lparr>o_model = HostObj 0, o_positive = Ref 0, o_negative = Ref 1,
          o_frame = 0, o_fps = 30, o_bpm = 120,
          o_bars = [0, 0, 0, 0], o_mix_values = [0, 0, 0, 0]\<rparr>"
    by (simp add: example_call_def)
  have data: "midi_data ?s = Some ?pm"
    unfolding first_call parse_a by simp
  have bars: "bar_level (1 / 2) = Inr 2" "bar_level 0 = Inr 0"
    by (simp_all add: bar_level_def)
  have res: "r_result (mix_with_midi example_env example_heap ?s ?c) = Inr ?out"
    unfolding first_call parse_a
    by (simp add: mix_with_midi_def update_cache_def midi_path_of_def example_call_def
      no_kwargs_def run_tracks_def process_track_def hold_single
      bpm_of_def mix_result_def bars Let_def)
  from empty_path_keeps_cache[OF p, where e = example_env and h = example_heap
      and s = ?s and pm = ?pm and out = ?out] data res
  have "o_bpm ?out = pm_bpm ?pm" by blast
  with fresh data res p show ?thesis unfolding parse_a by simp
qed

text \<open>
  C2, as stated, fails. On a new object, a call with \<^verbatim>\<open>a.mid\<close> (Hold mode, mix
  strength 1) and then a call with the empty path: the second call reports 100 BPM, the
  tempo of \<^verbatim>\<open>a.mid\<close>, and the strengths 1, 1, 0, 0.
\<close>

theorem empty_path_after_parse:
  "r_result (mix_with_midi example_env example_heap
      (r_session (mix_with_midi example_env example_heap init_session
          (example_call (Some ''a.mid'') ''Hold'' 1)))
      (example_call (Some '''') ''Hold'' 1)) =
     Inr \<lparr>o_model = HostObj 0, o_positive = Ref 0, o_negative = Ref 1,
          o_frame = 0, o_fps = 30, o_bpm = 100,
          o_bars = [5, 5, 0, 0], o_mix_values = [1, 1, 0, 0]\<rparr>"
  unfolding first_call parse_a
  by (simp add: mix_with_midi_def update_cache_def midi_path_of_def example_call_def
      no_kwargs_def run_tracks_def process_track_def hold_single
      bpm_of_def mix_result_def bar_level_def Let_def)

subsection \<open>Slots without a parsed track\<close>

text \<open>
  C3, as the code has it. After a call that leaves parsed data with fewer tracks than
  \<open>j + 1\<close>, slot \<open>j\<close> of the stored strengths holds the value it held before the call,
  for every prior state of the object. The slots of a new object are 0, so the slot
  is 0 as long as no earlier call wrote it.
\<close>

theorem absent_track_slot_unchanged:
  assumes "midi_data (r_session (mix_with_midi e h s c)) = Some pm"
    and "length (pm_tracks pm) \<le> j"
  shows "track_states (r_session (mix_with_midi e h s c)) ! j = track_states s ! j \<and>
         length (track_states (r_session (mix_with_midi e h s c))) = length (track_states s) \<and>
         (s = init_session \<and> j < 4 \<longrightarrow>
            track_states (r_session (mix_with_midi e h s c)) ! j = 0)"
proof -
  from mix_with_midi_session[of e h s c]
  have len: "length (track_states (r_session (mix_with_midi e h s c))) = length (track_states s)"
    and slot: "track_states (r_session (mix_with_midi e h s c)) ! j = track_states s ! j \<or>
        (\<exists>pm x. midi_data (r_session (mix_with_midi e h s c)) = Some pm \<and> j < 4 \<and>
             j < length (pm_tracks pm) \<and> j < length (track_states s) \<and>
             get_track_strength_at_frame (pm_tracks pm ! j) (a_frame_number c)
               (a_fps c) (a_trigger_mode c) (pm_ticks_per_beat pm) (pm_tempo pm)
               (a_decay_rate c) = Inr x \<and>
             track_states (r_session (mix_with_midi e h s c)) ! j = x * a_mix_strength c)"
    by blast+
  from slot assms have same:
    "track_states (r_session (mix_with_midi e h s c)) ! j = track_states s ! j"
    by auto
  have init: "s = init_session \<and> j < 4 \<longrightarrow>
            track_states (r_session (mix_with_midi e h s c)) ! j = 0"
  proof
    assume a: "s = init_session \<and> j < 4"
    then have "j = 0 \<or> j = 1 \<or> j = 2 \<or> j = 3" by auto
    then have "track_states init_session ! j = 0"
      by (auto simp: init_session_def)
    with same a show "track_states (r_session (mix_with_midi e h s c)) ! j = 0" by simp
  qed
  from same len init show ?thesis by simp
qed

theorem absent_track_slot_unchanged_witness:
  "midi_data (r_session (mix_with_midi example_env example_heap init_session
      (example_call (Some ''b.mid'') ''Hold'' 1))) = parse_midi_file example_env ''b.mid'' \<and>
   track_states (r_session (mix_with_midi example_env example_heap init_session
      (example_call (Some ''b.mid'') ''Hold'' 1))) ! 1 = 0"
proof -
  have p: "midi_path_of (example_call (Some ''b.mid'') ''Hold'' 1) = ''b.mid''"
    by (simp add: example_path)
  have uc: "update_cache example_env init_session (example_call (Some ''b.mid'') ''Hold'' 1) =
     (init_session\<lparr>midi_data := parse_midi_file example_env ''b.mid'',
        cached_midi_path := Some ''b.mid'',
        current_frame := a_frame_number (example_call (Some ''b.mid'') ''Hold'' 1)\<rparr>,
      [''b.mid''])"
    using update_cache_new[of "example_call (Some ''b.mid'') ''Hold'' 1" init_session example_env]
    by (simp add: p init_session_def)
  have d: "midi_data (r_session (mix_with_midi example_env example_heap init_session
      (example_call (Some ''b.mid'') ''Hold'' 1))) = parse_midi_file example_env ''b.mid''"
    using mix_with_midi_session[of example_env example_heap init_session
        "example_call (Some ''b.mid'') ''Hold'' 1"] uc by simp
  from absent_track_slot_unchanged[OF d[unfolded parse_b], of 1] d
  show ?thesis by simp
qed

text \<open>
  C3, as stated, fails. On a new object, a call with \<^verbatim>\<open>a.mid\<close> (two tracks, Hold
  mode) and then a call with \<^verbatim>\<open>b.mid\<close> (one track): after the second call the parsed
  data has one track and the second slot still holds 1.
\<close>

theorem stale_slot_after_smaller_file:
  "midi_data (r_session (mix_with_midi example_env example_heap
      (r_session (mix_with_midi example_env example_heap init_session
          (example_call (Some ''a.mid'') ''Hold'' 1)))
      (example_call (Some ''b.mid'') ''Hold'' 1))) =
     Some \<lparr>pm_tracks = [[\<lparr>ev_time = 0, ev_type = note_on, ev_note = 60, ev_velocity = 100\<rparr>]],
         pm_tempo = 500000, pm_ticks_per_beat = 480, pm_bpm = 120\<rparr> \<and>
   track_states (r_session (mix_with_midi example_env example_heap
      (r_session (mix_with_midi example_env example_heap init_session
          (example_call (Some ''a.mid'') ''Hold'' 1)))
      (example_call (Some ''b.mid'') ''Hold'' 1))) = [1, 1, 0, 0]"
  unfolding first_call
  by (simp add: mix_with_midi_def update_cache_def midi_path_of_def example_call_def
      no_kwargs_def run_tracks_def process_track_def hold_single parse_b
      bpm_of_def mix_result_def bar_level_def Let_def)

subsection \<open>The range of the stored strengths\<close>

text \<open>
  C4, as the code has it. With a mix strength in \<open>[0, 2]\<close>, a non-negative decay rate,
  valid MIDI data (in the object and in the file at the path of the call) and stored
  strengths in \<open>[0, 2]\<close>: after the call every stored strength lies in \<open>[0, 2]\<close>, the
  parsed data is valid again, and each slot either holds its previous value or lies in
  \<open>[0, mix_strength]\<close>.
\<close>

theorem track_states_bounded:
  assumes "0 \<le> a_mix_strength c" and "a_mix_strength c \<le> 2" and "0 \<le> a_decay_rate c"
    and "\<forall>mid. MidiFile e (midi_path_of c) = Some mid \<longrightarrow> valid_file mid"
    and "\<forall>pm. midi_data s = Some pm \<longrightarrow> valid_midi pm"
    and "\<forall>x \<in> set (track_states s). 0 \<le> x \<and> x \<le> 2"
  shows "(\<forall>x \<in> set (track_states (r_session (mix_with_midi e h s c))). 0 \<le> x \<and> x \<le> 2) \<and>
    (\<forall>pm. midi_data (r_session (mix_with_midi e h s c)) = Some pm \<longrightarrow> valid_midi pm) \<and>
    (\<forall>j. track_states (r_session (mix_with_midi e h s c)) ! j = track_states s ! j \<or>
         (0 \<le> track_states (r_session (mix_with_midi e h s c)) ! j \<and>
          track_states (r_session (mix_with_midi e h s c)) ! j \<le> a_mix_strength c))"
proof -
  define s' where "s' = r_session (mix_with_midi e h s c)"
  note eff = mix_with_midi_session[of e h s c, folded s'_def]
  have valid: "\<forall>pm. midi_data s' = Some pm \<longrightarrow> valid_midi pm"
  proof (intro allI impI)
    fix pm assume pm: "midi_data s' = Some pm"
    show "valid_midi pm"
    proof (cases "midi_path_of c \<noteq> [] \<and> cached_midi_path s \<noteq> Some (midi_path_of c)")
      case True
      then have "midi_data s' = parse_midi_file e (midi_path_of c)"
        using eff update_cache_new[of c s e] by simp
      with pm have "parse_midi_file e (midi_path_of c) = Some pm" by simp
      from parse_midi_file_valid[OF this assms(4)] show ?thesis .
    next
      case False
      then have "midi_data s' = midi_data s"
        using eff update_cache_same[of c s e] by auto
      with pm assms(5) show ?thesis by simp
    qed
  qed
  have slots: "\<forall>j. track_states s' ! j = track_states s ! j \<or>
         (0 \<le> track_states s' ! j \<and> track_states s' ! j \<le> a_mix_strength c)"
  proof
    fix j
    from eff have "track_states s' ! j = track_states s ! j \<or>
        (\<exists>pm x. midi_data s' = Some pm \<and> j < 4 \<and>
             j < length (pm_tracks pm) \<and> j < length (track_states s) \<and>
             get_track_strength_at_frame (pm_tracks pm ! j) (a_frame_number c)
               (a_fps c) (a_trigger_mode c) (pm_ticks_per_beat pm) (pm_tempo pm)
               (a_decay_rate c) = Inr x \<and>
             track_states s' ! j = x * a_mix_strength c)" by blast
    then show "track_states s' ! j = track_states s ! j \<or>
         (0 \<le> track_states s' ! j \<and> track_states s' ! j \<le> a_mix_strength c)"
    proof
      assume "track_states s' ! j = track_states s ! j"
      then show ?thesis by simp
    next
      assume "\<exists>pm x. midi_data s' = Some pm \<and> j < 4 \<and>
             j < length (pm_tracks pm) \<and> j < length (track_states s) \<and>
             get_track_strength_at_frame (pm_tracks pm ! j) (a_frame_number c)
               (a_fps c) (a_trigger_mode c) (pm_ticks_per_beat pm) (pm_tempo pm)
               (a_decay_rate c) = Inr x \<and>
             track_states s' ! j = x * a_mix_strength c"
      then obtain pm x where w: "midi_data s' = Some pm" "j < length (pm_tracks pm)"
        "get_track_strength_at_frame (pm_tracks pm ! j) (a_frame_number c)
               (a_fps c) (a_trigger_mode c) (pm_ticks_per_beat pm) (pm_tempo pm)
               (a_decay_rate c) = Inr x"
        "track_states s' ! j = x * a_mix_strength c" by blast
      from valid w(1) have v: "valid_midi pm" by simp
      then have tpb: "0 < pm_ticks_per_beat pm"
        and tr: "list_all (\<lambda>ev. ev_velocity ev \<le> 127) (pm_tracks pm ! j)"
        using w(2) by (simp_all add: valid_midi_def list_all_length)
      from get_track_strength_unit_interval[OF w(3) tr tpb assms(3)]
      have x: "0 \<le> x" "x \<le> 1" by simp_all
      have "0 \<le> x * a_mix_strength c" using x(1) assms(1) by simp
      moreover have "x * a_mix_strength c \<le> 1 * a_mix_strength c"
        using x(2) assms(1) by (rule mult_right_mono)
      ultimately show ?thesis using w(4) by simp
    qed
  qed
  have len: "length (track_states s') = length (track_states s)" using eff by simp
  have all: "\<forall>x \<in> set (track_states s'). 0 \<le> x \<and> x \<le> 2"
  proof
    fix x assume "x \<in> set (track_states s')"
    then obtain j where j: "j < length (track_states s')" "x = track_states s' ! j"
      by (auto simp: in_set_conv_nth)
    from slots have "track_states s' ! j = track_states s ! j \<or>
         (0 \<le> track_states s' ! j \<and> track_states s' ! j \<le> a_mix_strength c)" by blast
    then show "0 \<le> x \<and> x \<le> 2"
    proof
      assume same: "track_states s' ! j = track_states s ! j"
      have "track_states s ! j \<in> set (track_states s)" using j(1) len by simp
      with assms(6) same j(2) show ?thesis by auto
    next
      assume "0 \<le> track_states s' ! j \<and> track_states s' ! j \<le> a_mix_strength c"
      with assms(2) j(2) show ?thesis by simp
    qed
  qed
  from all valid slots show ?thesis unfolding s'_def by blast
qed


lemma example_file_valid:
  "\<forall>mid. MidiFile example_env ''b.mid'' = Some mid \<longrightarrow> valid_file mid"
  by (simp add: example_env_def valid_file_def)

theorem track_states_bounded_witness:
  "(0::real) \<le> a_mix_strength (example_call (Some ''b.mid'') ''Hold'' 2) \<and>
   a_mix_strength (example_call (Some ''b.mid'') ''Hold'' 2) \<le> 2 \<and>
   0 \<le> track_states (r_session (mix_with_midi example_env example_heap init_session
          (example_call (Some ''b.mid'') ''Hold'' 2))) ! 0 \<and>
   track_states (r_session (mix_with_midi example_env example_heap init_session
          (example_call (Some ''b.mid'') ''Hold'' 2))) ! 0 \<le> 2"
proof -
  let ?c = "example_call (Some ''b.mid'') ''Hold'' 2"
  have mix: "0 \<le> a_mix_strength ?c" "a_mix_strength ?c \<le> 2" "0 \<le> a_decay_rate ?c"
    by (simp_all add: example_call_def)
  have fl: "\<forall>mid. MidiFile example_env (midi_path_of ?c) = Some mid \<longrightarrow> valid_file mid"
    using example_file_valid by (simp add: example_path)
  have data: "\<forall>pm. midi_data init_session = Some pm \<longrightarrow> valid_midi pm"
    by (simp add: init_session_def)
  have states: "\<forall>x \<in> set (track_states init_session). 0 \<le> x \<and> x \<le> 2"
    by (simp add: init_session_def)
  have zero: "track_states init_session ! 0 = 0" by (simp add: init_session_def)
  from track_states_bounded[OF mix fl data states, of example_heap]
  have "track_states (r_session (mix_with_midi example_env example_heap init_session ?c)) ! 0
          = track_states init_session ! 0 \<or>
        (0 \<le> track_states (r_session (mix_with_midi example_env example_heap init_session ?c)) ! 0 \<and>
         track_states (r_session (mix_with_midi example_env example_heap init_session ?c)) ! 0
           \<le> a_mix_strength ?c)"
    by blast
  with zero mix show ?thesis by auto
qed

text \<open>
  C4, as stated, fails. On a new object, one call with \<^verbatim>\<open>b.mid\<close>, frame 0, 30 fps,
  Hold mode, decay rate 2 and mix strength 2: the first stored strength is 2.
\<close>

theorem hold_with_mix_strength_two:
  "track_states (r_session (mix_with_midi example_env example_heap init_session
          (example_call (Some ''b.mid'') ''Hold'' 2))) = [2, 0, 0, 0] \<and>
   \<not> track_states (r_session (mix_with_midi example_env example_heap init_session
          (example_call (Some ''b.mid'') ''Hold'' 2))) ! 0 \<le> 1"
  by (simp add: mix_with_midi_def update_cache_def midi_path_of_def example_call_def
      no_kwargs_def init_session_def run_tracks_def process_track_def hold_single parse_b
      bpm_of_def mix_result_def bar_level_def Let_def)

section \<open>Properties of applying a ControlNet\<close>

subsection \<open>Writes go to new objects only\<close>

lemma frame_except_refl: "frame_except c h h"
  by (simp add: frame_except_def)

lemma frame_except_trans:
  "frame_except c h h1 \<Longrightarrow> frame_except c h1 h2 \<Longrightarrow> frame_except c h h2"
  by (auto simp: frame_except_def)

lemma frame_except_alloc: "frame_except c h (fst (alloc h obj))"
  by (simp add: frame_except_def alloc_def nth_append)

lemma frame_except_dict_setitem:
  "length h0 \<le> a \<Longrightarrow> length h0 \<le> length h \<Longrightarrow> frame_except c h0 h \<Longrightarrow>
     frame_except c h0 (dict_setitem h a k v)"
  by (auto simp: frame_except_def dict_setitem_def split: pyobj.splits)

lemma frame_except_list_append:
  "frame_except c h0 h \<Longrightarrow> frame_except c h0 (list_append h c v)"
  by (auto simp: frame_except_def list_append_def split: pyobj.splits)

lemma apply_entry_frame:
  assumes "apply_entry h cnets c_out t = (h', err)"
  shows "frame_except c_out h h'"
proof (cases "lookup h t")
  case None
  with assms show ?thesis by (simp add: apply_entry_def frame_except_refl)
next
  case (Some obj)
  show ?thesis
  proof (cases obj)
    case (PyDict d)
    with Some assms show ?thesis by (simp add: apply_entry_def frame_except_refl)
  next
    case (PyList items)
    show ?thesis
    proof (cases "length items < 2")
      case True
      with Some PyList assms show ?thesis by (simp add: apply_entry_def frame_except_refl)
    next
      case False
      show ?thesis
      proof (cases "lookup h (items ! 1)")
        case None
        with Some PyList False assms show ?thesis
          by (simp add: apply_entry_def frame_except_refl)
      next
        case (Some dobj)
        note dsome = Some
        show ?thesis
        proof (cases dobj)
          case (PyList xs)
          with dsome \<open>lookup h t = Some obj\<close> \<open>obj = PyList items\<close> False assms show ?thesis
            by (simp add: apply_entry_def frame_except_refl)
        next
          case (PyDict d)
          define h1 where "h1 = h @ [PyDict d]"
          define h2 where "h2 = h1 @ [PyList [items ! 0, Ref (length h)]]"
          have f2: "frame_except c_out h h2" "length h2 = length h + 2"
            by (simp_all add: frame_except_def h2_def h1_def nth_append)
          have unf: "apply_entry h cnets c_out t =
            (case d ''control'' of
               Some old \<Rightarrow>
                 (case (lookup h2 old, lookup h2 (Ref cnets)) of
                    (Some (PyList olds), Some (PyList cs)) \<Rightarrow>
                      (let (h3, joined) = alloc h2 (PyList (olds @ cs));
                           h4 = dict_setitem h3 (length h) ''control'' (Ref joined)
                       in (list_append h4 c_out (Ref (length h1)), None))
                  | _ \<Rightarrow> (h2, Some TypeError))
             | None \<Rightarrow>
                 (let h3 = dict_setitem h2 (length h) ''control'' (Ref cnets)
                  in (list_append h3 c_out (Ref (length h1)), None)))"
            using \<open>lookup h t = Some obj\<close> \<open>obj = PyList items\<close> False dsome PyDict
            unfolding h1_def h2_def
            by (simp add: apply_entry_def alloc_def Let_def)
          show ?thesis
          proof (cases "d ''control''")
            case None
            with unf assms have "h' = list_append (dict_setitem h2 (length h) ''control''
                (Ref cnets)) c_out (Ref (length h1))" by (simp add: Let_def)
            then show ?thesis
              using frame_except_list_append[OF frame_except_dict_setitem[OF _ _ f2(1)]]
                f2(2) by simp
          next
            case (Some old)
            show ?thesis
            proof (cases "\<exists>olds cs. lookup h2 old = Some (PyList olds) \<and>
                              lookup h2 (Ref cnets) = Some (PyList cs)")
              case True
              then obtain olds cs where oc: "lookup h2 old = Some (PyList olds)"
                "lookup h2 (Ref cnets) = Some (PyList cs)" by blast
              define h3 where "h3 = h2 @ [PyList (olds @ cs)]"
              have f3: "frame_except c_out h h3" "length h \<le> length h3"
                using f2 by (simp_all add: frame_except_def h3_def nth_append)
              from unf assms Some oc
              have "h' = list_append (dict_setitem h3 (length h) ''control''
                       (Ref (length h2))) c_out (Ref (length h1))"
                by (simp add: alloc_def Let_def h3_def)
              then show ?thesis
                using frame_except_list_append[OF frame_except_dict_setitem[OF _ f3(2) f3(1)]]
                by simp
            next
              case False
              with unf assms Some have "h' = h2"
                by (auto split: option.splits pyobj.splits)
              with f2 show ?thesis by simp
            qed
          qed
        qed
      qed
    qed
  qed
qed

lemma apply_entries_frame:
  assumes "apply_entries h cnets c_out ts = (h', err)"
  shows "frame_except c_out h h'"
  using assms
proof (induction ts arbitrary: h)
  case Nil
  then show ?case by (simp add: frame_except_refl)
next
  case (Cons t ts)
  obtain h1 e1 where step: "apply_entry h cnets c_out t = (h1, e1)"
    by (cases "apply_entry h cnets c_out t")
  note f1 = apply_entry_frame[OF step]
  show ?case
  proof (cases e1)
    case (Some x)
    with Cons.prems step have "h' = h1" by simp
    with f1 show ?thesis by simp
  next
    case None
    with Cons.prems step have "apply_entries h1 cnets c_out ts = (h', err)" by simp
    from frame_except_trans[OF f1 Cons.IH[OF this]] show ?thesis .
  qed
qed

lemma extends_nth: "extends h h' \<longleftrightarrow> length h \<le> length h' \<and> (\<forall>a < length h. h' ! a = h ! a)"
proof
  assume e: "extends h h'"
  then have "\<forall>a < length h. h' ! a = take (length h) h' ! a" by simp
  with e show "length h \<le> length h' \<and> (\<forall>a < length h. h' ! a = h ! a)"
    by (simp add: extends_def)
next
  assume a: "length h \<le> length h' \<and> (\<forall>a < length h. h' ! a = h ! a)"
  then have "take (length h) h' = h"
    by (intro nth_equalityI) auto
  with a show "extends h h'" by (simp add: extends_def)
qed

lemma extends_refl: "extends h h"
  by (simp add: extends_def)

lemma extends_trans: "extends h h1 \<Longrightarrow> extends h1 h2 \<Longrightarrow> extends h h2"
  unfolding extends_nth by auto

lemma extends_append: "extends h (h @ xs)"
  by (simp add: extends_def)

lemma frame_except_new: "frame_except (length h) h h' \<Longrightarrow> extends h h'"
  unfolding extends_nth frame_except_def by auto

lemma frame_except_beyond:
  "extends h0 h \<Longrightarrow> frame_except c h h' \<Longrightarrow> length h0 \<le> c \<Longrightarrow> extends h0 h'"
  unfolding extends_nth frame_except_def by auto

lemma apply_side_extends:
  assumes "apply_side h cnets conditioning = (h', res)"
  shows "extends h h'"
proof -
  define h1 where "h1 = h @ [PyList []]"
  have e1: "extends h h1" by (simp add: h1_def extends_append)
  show ?thesis
  proof (cases "\<exists>ts. lookup h1 conditioning = Some (PyList ts)")
    case False
    with assms have "h' = h1"
      by (auto simp: apply_side_def alloc_def h1_def split: option.splits pyobj.splits)
    with e1 show ?thesis by simp
  next
    case True
    then obtain ts where ts: "lookup h1 conditioning = Some (PyList ts)" by blast
    obtain h2 err where run: "apply_entries h1 cnets (length h) ts = (h2, err)"
      by (cases "apply_entries h1 cnets (length h) ts")
    from assms ts run have "h' = h2"
      by (auto simp: apply_side_def alloc_def h1_def split: option.splits)
    moreover from frame_except_beyond[OF e1 apply_entries_frame[OF run]]
    have "extends h h2" by simp
    ultimately show ?thesis by simp
  qed
qed

lemma apply_controlnet_extends:
  assumes "apply_controlnet_to_conditioning h positive negative control_net img strength
             track_strength = (h', res)"
  shows "extends h h'"
proof (cases "control_net \<noteq> NoneV \<and> img \<noteq> NoneV \<and> strength > 0 \<and> track_strength > 0")
  case False
  with assms have "h' = h" by (auto simp: apply_controlnet_to_conditioning_def)
  then show ?thesis by (simp add: extends_refl)
next
  case guard: True
  show ?thesis
  proof (cases "\<exists>t hint. img = TensorV t \<and> control_hint_of t = Inr hint")
    case False
    with assms guard have "h' = h"
      by (auto simp: apply_controlnet_to_conditioning_def Let_def
          split: pyval.splits sum.splits)
    then show ?thesis by (simp add: extends_refl)
  next
    case True
    then obtain t hint where t: "img = TensorV t" "control_hint_of t = Inr hint" by blast
    define h1 where "h1 = h @ [PyList [control_net, TensorV hint,
                                 Num (strength * track_strength), Num 0, Num 1]]"
    define h2 where "h2 = h1 @ [PyList [Ref (length h)]]"
    have e2: "extends h h2"
      by (simp add: extends_def h2_def h1_def)
    obtain h3 r3 where s3: "apply_side h2 (length h1) positive = (h3, r3)"
      by (cases "apply_side h2 (length h1) positive")
    note e3 = extends_trans[OF e2 apply_side_extends[OF s3]]
    show ?thesis
    proof (cases r3)
      case (Inl x)
      with assms guard t s3 have "h' = h3"
        by (simp add: apply_controlnet_to_conditioning_def Let_def alloc_def h1_def h2_def)
      with e3 show ?thesis by simp
    next
      case (Inr c_pos)
      obtain h4 r4 where s4: "apply_side h3 (length h1) negative = (h4, r4)"
        by (cases "apply_side h3 (length h1) negative")
      from assms guard t s3 Inr s4 have "h' = h4"
        by (auto simp: apply_controlnet_to_conditioning_def Let_def alloc_def h1_def h2_def
            split: sum.splits)
      with extends_trans[OF e3 apply_side_extends[OF s4]] show ?thesis by simp
    qed
  qed
qed

subsection \<open>The entries that are built\<close>

lemma lookup_SomeD:
  "lookup h v = Some obj \<Longrightarrow> \<exists>a. v = Ref a \<and> a < length h \<and> h ! a = obj"
  by (auto simp: lookup_def split: pyval.splits if_splits)

lemma lookup_Ref: "a < length h \<Longrightarrow> lookup h (Ref a) = Some (h ! a)"
  by (simp add: lookup_def)

lemma lookup_extends:
  assumes "extends h h'" and "lookup h v = Some obj"
  shows "lookup h' v = Some obj"
proof -
  from lookup_SomeD[OF assms(2)] obtain a where a: "v = Ref a" "a < length h" "h ! a = obj"
    by blast
  from assms(1) a(2) have "a < length h'" "h' ! a = h ! a"
    unfolding extends_nth by auto
  with a show ?thesis by (simp add: lookup_def)
qed

lemma entry_okD:
  assumes "entry_ok h t"
  shows "\<exists>items d. lookup h t = Some (PyList items) \<and> 2 \<le> length items \<and>
           lookup h (items ! 1) = Some (PyDict d) \<and>
           (case d ''control'' of None \<Rightarrow> True
            | Some old \<Rightarrow> (\<exists>olds. lookup h old = Some (PyList olds)))"
proof (cases "lookup h t")
  case None
  with assms show ?thesis by (simp add: entry_ok_def)
next
  case (Some obj)
  show ?thesis
  proof (cases obj)
    case (PyDict d)
    with Some assms show ?thesis by (simp add: entry_ok_def)
  next
    case (PyList items)
    with Some assms have two: "2 \<le> length items"
      and rest: "(case lookup h (items ! 1) of
             Some (PyDict d) \<Rightarrow>
               (case d ''control'' of
                  None \<Rightarrow> True
                | Some old \<Rightarrow>
                    (case lookup h old of Some (PyList olds) \<Rightarrow> True | _ \<Rightarrow> False))
           | _ \<Rightarrow> False)"
      by (simp_all add: entry_ok_def)
    show ?thesis
    proof (cases "lookup h (items ! 1)")
      case None
      with rest show ?thesis by simp
    next
      case dsome: (Some dobj)
      show ?thesis
      proof (cases dobj)
        case (PyList xs)
        with dsome rest show ?thesis by simp
      next
        case (PyDict d)
        with dsome rest have c: "(case d ''control'' of
                  None \<Rightarrow> True
                | Some old \<Rightarrow>
                    (case lookup h old of Some (PyList olds) \<Rightarrow> True | _ \<Rightarrow> False))"
          by simp
        have "case d ''control'' of None \<Rightarrow> True
            | Some old \<Rightarrow> (\<exists>olds. lookup h old = Some (PyList olds))"
        proof (cases "d ''control''")
          case None
          then show ?thesis by simp
        next
          case (Some old)
          with c have o: "(case lookup h old of Some (PyList olds) \<Rightarrow> True | _ \<Rightarrow> False)"
            by simp
          then obtain oobj where oo: "lookup h old = Some oobj"
            by (cases "lookup h old") simp_all
          with o obtain olds where "oobj = PyList olds" by (cases oobj) simp_all
          with oo Some show ?thesis by simp
        qed
        with \<open>lookup h t = Some obj\<close> \<open>obj = PyList items\<close> two dsome PyDict
        show ?thesis by simp
      qed
    qed
  qed
qed

lemma entry_built_stable:
  assumes "entry_built h0 h' c ce t n" and "frame_except c h' h''"
  shows "entry_built h0 h'' c ce t n"
proof -
  from assms(1) obtain items d a_n a_d a_c olds where w:
    "lookup h0 t = Some (PyList items)" "lookup h0 (items ! 1) = Some (PyDict d)"
    "n = Ref a_n" "length h0 \<le> a_n" "a_n < length h'" "a_n \<noteq> c"
    "h' ! a_n = PyList [items ! 0, Ref a_d]"
    "length h0 \<le> a_d" "a_d < length h'" "a_d \<noteq> c"
    "h' ! a_d = PyDict (d(''control'' \<mapsto> Ref a_c))"
    "length h0 \<le> a_c" "a_c < length h'" "a_c \<noteq> c"
    "h' ! a_c = PyList (olds @ [ce])"
    "(case d ''control'' of None \<Rightarrow> olds = []
      | Some old \<Rightarrow> lookup h0 old = Some (PyList olds))"
    unfolding entry_built_def by blast
  from assms(2) have len: "length h' \<le> length h''"
    and same: "\<And>a. a < length h' \<Longrightarrow> a \<noteq> c \<Longrightarrow> h'' ! a = h' ! a"
    by (auto simp: frame_except_def)
  have "a_n < length h''" "a_d < length h''" "a_c < length h''"
    using w(5,9,13) len by simp_all
  moreover have "h'' ! a_n = PyList [items ! 0, Ref a_d]"
    "h'' ! a_d = PyDict (d(''control'' \<mapsto> Ref a_c))"
    "h'' ! a_c = PyList (olds @ [ce])"
    using same[OF w(5,6)] same[OF w(9,10)] same[OF w(13,14)] w(7,11,15) by simp_all
  ultimately show ?thesis
    unfolding entry_built_def using w(1,2,3,4,6,8,10,12,14,16) by blast
qed

lemma apply_entry_spec:
  assumes ok: "entry_ok h0 t" and ext: "extends h0 h"
    and cn: "length h0 \<le> cnets" "cnets < length h" "h ! cnets = PyList [ce]" "cnets \<noteq> c_out"
    and co: "length h0 \<le> c_out" "c_out < length h" "h ! c_out = PyList acc"
  shows "\<exists>h' n. apply_entry h cnets c_out t = (h', None) \<and> frame_except c_out h h' \<and>
           h' ! c_out = PyList (acc @ [n]) \<and> entry_built h0 h' c_out ce t n"
proof -
  from entry_okD[OF ok] obtain items d where it: "lookup h0 t = Some (PyList items)"
    "2 \<le> length items" "lookup h0 (items ! 1) = Some (PyDict d)"
    and ctl: "case d ''control'' of None \<Rightarrow> True
              | Some old \<Rightarrow> (\<exists>olds. lookup h0 old = Some (PyList olds))"
    by blast
  note it_h = lookup_extends[OF ext it(1)] lookup_extends[OF ext it(3)]
  have len0: "length h0 \<le> length h" using ext by (simp add: extends_def)
  define h1 where "h1 = h @ [PyDict d]"
  define h2 where "h2 = h1 @ [PyList [items ! 0, Ref (length h)]]"
  have "extends h h2" by (simp add: h2_def h1_def extends_def)
  then have e2: "extends h0 h2" by (rule extends_trans[OF ext])
  have l2: "length h2 = length h + 2" by (simp add: h2_def h1_def)
  have n2: "h2 ! length h = PyDict d" "h2 ! Suc (length h) = PyList [items ! 0, Ref (length h)]"
    "\<And>a. a < length h \<Longrightarrow> h2 ! a = h ! a"
    by (simp_all add: h2_def h1_def nth_append)
  have unf: "apply_entry h cnets c_out t =
            (case d ''control'' of
               Some old \<Rightarrow>
                 (case (lookup h2 old, lookup h2 (Ref cnets)) of
                    (Some (PyList olds), Some (PyList cs)) \<Rightarrow>
                      (let (h3, joined) = alloc h2 (PyList (olds @ cs));
                           h4 = dict_setitem h3 (length h) ''control'' (Ref joined)
                       in (list_append h4 c_out (Ref (length h1)), None))
                  | _ \<Rightarrow> (h2, Some TypeError))
             | None \<Rightarrow>
                 (let h3 = dict_setitem h2 (length h) ''control'' (Ref cnets)
                  in (list_append h3 c_out (Ref (length h1)), None)))"
    using it_h it(2) unfolding h1_def h2_def
    by (simp add: apply_entry_def alloc_def Let_def)
  show ?thesis
  proof (cases "d ''control''")
    case None
    define h' where "h' = (h2[length h := PyDict (d(''control'' \<mapsto> Ref cnets))])
                             [c_out := PyList (acc @ [Ref (Suc (length h))])]"
    have run: "apply_entry h cnets c_out t = (h', None)"
      unfolding unf h'_def using None l2 n2 co
      by (simp add: dict_setitem_def list_append_def Let_def h1_def)
    have lh: "length h' = length h + 2" by (simp add: h'_def l2)
    have nth: "h' ! c_out = PyList (acc @ [Ref (Suc (length h))])"
      "h' ! Suc (length h) = PyList [items ! 0, Ref (length h)]"
      "h' ! length h = PyDict (d(''control'' \<mapsto> Ref cnets))"
      "h' ! cnets = PyList [ce]"
      using co cn l2 n2 by (simp_all add: h'_def)
    have built: "entry_built h0 h' c_out ce t (Ref (Suc (length h)))"
      unfolding entry_built_def
      apply (rule exI[of _ items], rule exI[of _ d], rule exI[of _ "Suc (length h)"],
          rule exI[of _ "length h"], rule exI[of _ cnets], rule exI[of _ "[]"])
      using it None nth lh len0 cn co by simp
    from run apply_entry_frame[OF run] nth(1) built show ?thesis by blast
  next
    case (Some old)
    with ctl obtain olds where olds: "lookup h0 old = Some (PyList olds)" by auto
    have lo: "lookup h2 old = Some (PyList olds)" by (rule lookup_extends[OF e2 olds])
    have lc: "lookup h2 (Ref cnets) = Some (PyList [ce])"
      using cn l2 n2 by (simp add: lookup_def)
    define h3 where "h3 = h2 @ [PyList (olds @ [ce])]"
    define h' where "h' = (h3[length h := PyDict (d(''control'' \<mapsto> Ref (length h + 2)))])
                             [c_out := PyList (acc @ [Ref (Suc (length h))])]"
    have l3: "length h3 = length h + 3" by (simp add: h3_def l2)
    have n3: "h3 ! length h = PyDict d" "h3 ! Suc (length h) = PyList [items ! 0, Ref (length h)]"
      "h3 ! (length h + 2) = PyList (olds @ [ce])"
      "\<And>a. a < length h \<Longrightarrow> h3 ! a = h ! a"
      using n2 l2 by (simp_all add: h3_def nth_append)
    have run: "apply_entry h cnets c_out t = (h', None)"
      unfolding unf h'_def using Some lo lc l2 l3 n3 co
      by (simp add: dict_setitem_def list_append_def alloc_def Let_def h1_def h3_def[symmetric])
    have lh: "length h' = length h + 3" by (simp add: h'_def l3)
    have nth: "h' ! c_out = PyList (acc @ [Ref (Suc (length h))])"
      "h' ! Suc (length h) = PyList [items ! 0, Ref (length h)]"
      "h' ! length h = PyDict (d(''control'' \<mapsto> Ref (length h + 2)))"
      "h' ! (length h + 2) = PyList (olds @ [ce])"
      using co cn l3 n3 by (simp_all add: h'_def)
    have built: "entry_built h0 h' c_out ce t (Ref (Suc (length h)))"
      unfolding entry_built_def
      apply (rule exI[of _ items], rule exI[of _ d], rule exI[of _ "Suc (length h)"],
          rule exI[of _ "length h"], rule exI[of _ "length h + 2"], rule exI[of _ olds])
      using it Some olds nth lh len0 cn co by simp
    from run apply_entry_frame[OF run] nth(1) built show ?thesis by blast
  qed
qed

lemma frame_except_extends:
  assumes "extends h0 h" and "frame_except c h h'" and "length h0 \<le> c"
  shows "extends h0 h'"
  using frame_except_beyond[OF assms] .

lemma apply_entries_spec:
  assumes "list_all (entry_ok h0) ts" and "extends h0 h"
    and "length h0 \<le> cnets" and "cnets < length h" and "h ! cnets = PyList [ce]"
    and "cnets \<noteq> c_out"
    and "length h0 \<le> c_out" and "c_out < length h" and "h ! c_out = PyList acc"
  shows "\<exists>h' ns. apply_entries h cnets c_out ts = (h', None) \<and> frame_except c_out h h' \<and>
           h' ! c_out = PyList (acc @ ns) \<and> length ns = length ts \<and>
           (\<forall>k < length ts. entry_built h0 h' c_out ce (ts ! k) (ns ! k))"
  using assms
proof (induction ts arbitrary: h acc)
  case Nil
  then show ?case by (simp add: frame_except_refl)
next
  case (Cons t ts)
  from Cons.prems(1) have ok: "entry_ok h0 t" and oks: "list_all (entry_ok h0) ts"
    by simp_all
  from apply_entry_spec[OF ok Cons.prems(2-9)]
  obtain h1 n where step: "apply_entry h cnets c_out t = (h1, None)"
    and f1: "frame_except c_out h h1"
    and c1: "h1 ! c_out = PyList (acc @ [n])"
    and b1: "entry_built h0 h1 c_out ce t n" by blast
  have e1: "extends h0 h1"
    by (rule frame_except_extends[OF Cons.prems(2) f1 Cons.prems(7)])
  have len1: "length h \<le> length h1" using f1 by (simp add: frame_except_def)
  have cn1: "cnets < length h1" "h1 ! cnets = PyList [ce]"
    using f1 Cons.prems(4,5,6) by (auto simp: frame_except_def)
  have co1: "c_out < length h1" using Cons.prems(8) len1 by simp
  from Cons.IH[OF oks e1 Cons.prems(3) cn1 Cons.prems(6,7) co1 c1]
  obtain h' ns where rest: "apply_entries h1 cnets c_out ts = (h', None)"
    and f2: "frame_except c_out h1 h'"
    and c2: "h' ! c_out = PyList ((acc @ [n]) @ ns)"
    and l2: "length ns = length ts"
    and b2: "\<forall>k < length ts. entry_built h0 h' c_out ce (ts ! k) (ns ! k)" by blast
  have run: "apply_entries h cnets c_out (t # ts) = (h', None)"
    using step rest by simp
  have fr: "frame_except c_out h h'" by (rule frame_except_trans[OF f1 f2])
  have built: "\<forall>k < length (t # ts). entry_built h0 h' c_out ce ((t # ts) ! k) ((n # ns) ! k)"
  proof (intro allI impI)
    fix k assume k: "k < length (t # ts)"
    show "entry_built h0 h' c_out ce ((t # ts) ! k) ((n # ns) ! k)"
    proof (cases k)
      case 0
      with entry_built_stable[OF b1 f2] show ?thesis by simp
    next
      case (Suc k')
      with k b2 show ?thesis by simp
    qed
  qed
  from run fr c2 l2 built show ?case
    by (intro exI[of _ h'] exI[of _ "n # ns"]) simp
qed

lemma conditioning_okD:
  assumes "conditioning_ok h v"
  shows "\<exists>ts. lookup h v = Some (PyList ts) \<and> list_all (entry_ok h) ts"
proof (cases "lookup h v")
  case None
  with assms show ?thesis by (simp add: conditioning_ok_def)
next
  case (Some obj)
  with assms show ?thesis by (cases obj) (simp_all add: conditioning_ok_def)
qed

lemma apply_side_spec:
  assumes "conditioning_ok h0 cond" and "extends h0 h"
    and "length h0 \<le> cnets" and "cnets < length h" and "h ! cnets = PyList [ce]"
  shows "\<exists>h' out. apply_side h cnets cond = (h', Inr out) \<and> extends h h' \<and>
           length h < length h' \<and> out = Ref (length h) \<and> side_built h0 h' ce cond out"
proof -
  from conditioning_okD[OF assms(1)] obtain ts where ts: "lookup h0 cond = Some (PyList ts)"
    "list_all (entry_ok h0) ts" by blast
  define h1 where "h1 = h @ [PyList []]"
  have eh: "extends h h1" by (simp add: h1_def extends_def)
  have e1: "extends h0 h1" by (rule extends_trans[OF assms(2) eh])
  have len0: "length h0 \<le> length h" using assms(2) by (simp add: extends_def)
  have l1: "lookup h1 cond = Some (PyList ts)" by (rule lookup_extends[OF e1 ts(1)])
  have cn1: "cnets < length h1" "h1 ! cnets = PyList [ce]" "cnets \<noteq> length h"
    using assms(4,5) by (simp_all add: h1_def nth_append)
  have co1: "length h0 \<le> length h" "length h < length h1" "h1 ! length h = PyList []"
    using len0 by (simp_all add: h1_def)
  from apply_entries_spec[OF ts(2) e1 assms(3) cn1 co1]
  obtain h' ns where run: "apply_entries h1 cnets (length h) ts = (h', None)"
    and fr: "frame_except (length h) h1 h'"
    and c: "h' ! length h = PyList ([] @ ns)" and l: "length ns = length ts"
    and b: "\<forall>k < length ts. entry_built h0 h' (length h) ce (ts ! k) (ns ! k)" by blast
  have side: "apply_side h cnets cond = (h', Inr (Ref (length h)))"
    using l1 run by (simp add: apply_side_def alloc_def h1_def)
  have ext: "extends h h'" using apply_side_extends[OF side] .
  have lt: "length h < length h'" using fr co1(2) by (simp add: frame_except_def)
  have built: "side_built h0 h' ce cond (Ref (length h))"
    unfolding side_built_def
    using ts(1) c l b lt len0
    by (intro exI[of _ "length h"] exI[of _ ts] exI[of _ ns]) simp
  from side ext lt built show ?thesis by blast
qed

lemma side_built_stable:
  assumes "side_built h0 h' ce cond out" and "extends h' h''"
  shows "side_built h0 h'' ce cond out"
proof -
  from assms(1) obtain c ts ns where w: "out = Ref c" "length h0 \<le> c" "c < length h'"
    "lookup h0 cond = Some (PyList ts)" "h' ! c = PyList ns" "length ns = length ts"
    "\<forall>k < length ts. entry_built h0 h' c ce (ts ! k) (ns ! k)"
    unfolding side_built_def by blast
  from assms(2) have len: "length h' \<le> length h''" and same: "\<And>a. a < length h' \<Longrightarrow> h'' ! a = h' ! a"
    unfolding extends_nth by auto
  have fr: "frame_except c h' h''" using len same by (simp add: frame_except_def)
  have "\<forall>k < length ts. entry_built h0 h'' c ce (ts ! k) (ns ! k)"
    using w(7) entry_built_stable[OF _ fr] by blast
  moreover have "h'' ! c = PyList ns" "c < length h''" using same[OF w(3)] w(3,5) len by simp_all
  ultimately show ?thesis
    unfolding side_built_def using w(1,2,4,6) by blast
qed

text \<open>
  C10. For every input, every object the store held before the call is in the store
  after it, unchanged, whether the call returns or raises. When the ControlNet is
  applied (it and the image are given, both strengths are positive) to an image tensor
  whose control hint can be built and to well-formed positive and negative conditioning,
  the call returns two different new lists; each holds, for every entry of the input in
  order, a new entry with a new copy of the entry's dictionary whose \<^verbatim>\<open>'control'\<close> is a
  new list ending in the new control entry \<open>[control_net, hint, strength *
  track_strength, 0, 1]\<close>. When the ControlNet is not applied, the store and the two
  inputs are returned as they came.
\<close>

theorem controlnet_leaves_inputs_unchanged:
  assumes "apply_controlnet_to_conditioning h positive negative control_net img strength
             track_strength = (h', res)"
  shows "extends h h' \<and>
    (control_net \<noteq> NoneV \<and> 0 < strength \<and> 0 < track_strength \<and>
     img = TensorV t \<and> control_hint_of t = Inr hint \<and>
     conditioning_ok h positive \<and> conditioning_ok h negative \<longrightarrow>
       (\<exists>c_pos c_neg inner.
          res = Inr (c_pos, c_neg) \<and> c_pos \<noteq> c_neg \<and>
          length h \<le> inner \<and> inner < length h' \<and>
          h' ! inner = PyList [control_net, TensorV hint, Num (strength * track_strength),
                               Num 0, Num 1] \<and>
          side_built h h' (Ref inner) positive c_pos \<and>
          side_built h h' (Ref inner) negative c_neg)) \<and>
    (\<not> (control_net \<noteq> NoneV \<and> img \<noteq> NoneV \<and> 0 < strength \<and> 0 < track_strength) \<longrightarrow>
       h' = h \<and> res = Inr (positive, negative))"
proof -
  have unchanged: "extends h h'" by (rule apply_controlnet_extends[OF assms])
  have skipped: "\<not> (control_net \<noteq> NoneV \<and> img \<noteq> NoneV \<and> 0 < strength \<and> 0 < track_strength) \<longrightarrow>
       h' = h \<and> res = Inr (positive, negative)"
    using assms by (auto simp: apply_controlnet_to_conditioning_def)
  have applied: "control_net \<noteq> NoneV \<and> 0 < strength \<and> 0 < track_strength \<and>
     img = TensorV t \<and> control_hint_of t = Inr hint \<and>
     conditioning_ok h positive \<and> conditioning_ok h negative \<longrightarrow>
       (\<exists>c_pos c_neg inner.
          res = Inr (c_pos, c_neg) \<and> c_pos \<noteq> c_neg \<and>
          length h \<le> inner \<and> inner < length h' \<and>
          h' ! inner = PyList [control_net, TensorV hint, Num (strength * track_strength),
                               Num 0, Num 1] \<and>
          side_built h h' (Ref inner) positive c_pos \<and>
          side_built h h' (Ref inner) negative c_neg)"
  proof
    assume a: "control_net \<noteq> NoneV \<and> 0 < strength \<and> 0 < track_strength \<and>
     img = TensorV t \<and> control_hint_of t = Inr hint \<and>
     conditioning_ok h positive \<and> conditioning_ok h negative"
    define entry where "entry = PyList [control_net, TensorV hint,
                                 Num (strength * track_strength), Num 0, Num 1]"
    define h1 where "h1 = h @ [entry]"
    define h2 where "h2 = h1 @ [PyList [Ref (length h)]]"
    have e2: "extends h h2" by (simp add: extends_def h2_def h1_def)
    have l2: "length h2 = length h + 2" by (simp add: h2_def h1_def)
    have n2: "h2 ! length h = entry" "h2 ! Suc (length h) = PyList [Ref (length h)]"
      by (simp_all add: h2_def h1_def nth_append)
    have cn2: "length h \<le> Suc (length h)" "Suc (length h) < length h2" using l2 by simp_all
    from a have okp: "conditioning_ok h positive" and okn: "conditioning_ok h negative"
      by simp_all
    from apply_side_spec[OF okp e2 cn2 n2(2)]
    obtain h3 where s3: "apply_side h2 (Suc (length h)) positive = (h3, Inr (Ref (length h2)))"
      and e3: "extends h2 h3" and l3: "length h2 < length h3"
      and b3: "side_built h h3 (Ref (length h)) positive (Ref (length h2))" by blast
    have e03: "extends h h3" by (rule extends_trans[OF e2 e3])
    have n3: "h3 ! Suc (length h) = PyList [Ref (length h)]" "h3 ! length h = entry"
      using e3 n2 l2 unfolding extends_nth by auto
    have cn3: "Suc (length h) < length h3" using l2 l3 by simp
    from apply_side_spec[OF okn e03 cn2(1) cn3 n3(1)]
    obtain h4 where s4: "apply_side h3 (Suc (length h)) negative = (h4, Inr (Ref (length h3)))"
      and e4: "extends h3 h4" and l4: "length h3 < length h4"
      and b4: "side_built h h4 (Ref (length h)) negative (Ref (length h3))" by blast
    have run: "apply_controlnet_to_conditioning h positive negative control_net img strength
             track_strength = (h4, Inr (Ref (length h2), Ref (length h3)))"
      using a s3 s4 unfolding h2_def h1_def entry_def
      by (simp add: apply_controlnet_to_conditioning_def alloc_def Let_def)
    with assms have r: "h' = h4" "res = Inr (Ref (length h2), Ref (length h3))" by simp_all
    have inner: "length h < length h4" "h4 ! length h = entry"
      using e4 n3(2) l2 l3 l4 unfolding extends_nth by auto
    have pos: "side_built h h4 (Ref (length h)) positive (Ref (length h2))"
      by (rule side_built_stable[OF b3 e4])
    have ne: "Ref (length h2) \<noteq> Ref (length h3)" using l3 by simp
    show "\<exists>c_pos c_neg inner.
          res = Inr (c_pos, c_neg) \<and> c_pos \<noteq> c_neg \<and>
          length h \<le> inner \<and> inner < length h' \<and>
          h' ! inner = PyList [control_net, TensorV hint, Num (strength * track_strength),
                               Num 0, Num 1] \<and>
          side_built h h' (Ref inner) positive c_pos \<and>
          side_built h h' (Ref inner) negative c_neg"
      unfolding r
      using ne inner pos b4
      by (intro exI[of _ "Ref (length h2)"] exI[of _ "Ref (length h3)"] exI[of _ "length h"])
         (simp add: entry_def)
  qed
  from unchanged applied skipped show ?thesis by blast
qed

lemma conditioning_heap_ok:
  "conditioning_ok conditioning_heap (Ref 2) \<and> conditioning_ok conditioning_heap (Ref 3)"
  by (simp add: conditioning_ok_def entry_ok_def lookup_def conditioning_heap_def)

lemma example_hint:
  "control_hint_of (Tensor [2, 64, 64, 3] 5) = Inr (Tensor [2, 3, 64, 64] 5)"
  by (simp add: control_hint_of_def movedim_last_1_def)

theorem controlnet_leaves_inputs_unchanged_witness:
  "conditioning_ok conditioning_heap (Ref 2) \<and> conditioning_ok conditioning_heap (Ref 3) \<and>
   take (length conditioning_heap)
     (fst (apply_controlnet_to_conditioning conditioning_heap (Ref 2) (Ref 3) (HostObj 7)
            (TensorV (Tensor [2, 64, 64, 3] 5)) 1 (1 / 2))) = conditioning_heap \<and>
   snd (apply_controlnet_to_conditioning conditioning_heap (Ref 2) (Ref 3) (HostObj 7)
            (TensorV (Tensor [2, 64, 64, 3] 5)) 1 (1 / 2)) = Inr (Ref 6, Ref 9)"
proof -
  define r where "r = apply_controlnet_to_conditioning conditioning_heap (Ref 2) (Ref 3)
     (HostObj 7) (TensorV (Tensor [2, 64, 64, 3] 5)) 1 (1 / 2)"
  have eq: "apply_controlnet_to_conditioning conditioning_heap (Ref 2) (Ref 3)
     (HostObj 7) (TensorV (Tensor [2, 64, 64, 3] 5)) 1 (1 / 2) = (fst r, snd r)"
    by (simp add: r_def)
  have g: "HostObj 7 \<noteq> NoneV \<and> (0::real) < 1 \<and> (0::real) < 1 / 2 \<and>
     TensorV (Tensor [2, 64, 64, 3] 5) = TensorV (Tensor [2, 64, 64, 3] 5) \<and>
     control_hint_of (Tensor [2, 64, 64, 3] 5) = Inr (Tensor [2, 3, 64, 64] 5) \<and>
     conditioning_ok conditioning_heap (Ref 2) \<and> conditioning_ok conditioning_heap (Ref 3)"
    using conditioning_heap_ok example_hint by simp
  from controlnet_leaves_inputs_unchanged[OF eq, of "Tensor [2, 64, 64, 3] 5"
      "Tensor [2, 3, 64, 64] 5"] g
  have ext: "extends conditioning_heap (fst r)"
    and "\<exists>c_pos c_neg inner. snd r = Inr (c_pos, c_neg) \<and> c_pos \<noteq> c_neg \<and>
          length conditioning_heap \<le> inner \<and> inner < length (fst r) \<and>
          fst r ! inner = PyList [HostObj 7, TensorV (Tensor [2, 3, 64, 64] 5),
             Num (1 * (1 / 2)), Num 0, Num 1] \<and>
          side_built conditioning_heap (fst r) (Ref inner) (Ref 2) c_pos \<and>
          side_built conditioning_heap (fst r) (Ref inner) (Ref 3) c_neg"
    by blast+
  have res: "snd r = Inr (Ref 6, Ref 9)"
    unfolding r_def
    by (simp add: apply_controlnet_to_conditioning_def example_hint alloc_def Let_def
        apply_side_def apply_entry_def lookup_def conditioning_heap_def dict_setitem_def
        list_append_def nth_append)
  from ext res conditioning_heap_ok show ?thesis
    unfolding r_def extends_def by simp
qed

end
